theory Spec2Isabelle
  imports Complex_Main "HOL-Library.Char_ord" "HOL-Library.List_Lexorder" "HOL-Library.Multiset"
begin

section \<open>Python slicing of strings and lists\<close>

text \<open>
  The notebook reads every field of an object key with a slice \<open>x[a:b]\<close>. A Python slice
  never raises: a negative bound counts from the end, and both bounds are clamped to the
  range \<open>0 .. len(x)\<close>. An omitted bound is \<open>None\<close>.
\<close>

definition slice_bound :: "nat \<Rightarrow> int \<Rightarrow> nat" where
  "slice_bound n i = (if i < 0 then nat (max 0 (i + int n)) else min (nat i) n)"

definition py_slice :: "int option \<Rightarrow> int option \<Rightarrow> 'a list \<Rightarrow> 'a list" where
  "py_slice a b xs =
     (let n = length xs;
          lo = (case a of None \<Rightarrow> 0 | Some i \<Rightarrow> slice_bound n i);
          hi = (case b of None \<Rightarrow> n | Some j \<Rightarrow> slice_bound n j)
      in drop lo (take hi xs))"

section \<open>Catalog Search: chronological sort and field extraction\<close>

text \<open>
  \<open>keys.sort(key=lambda x: x[-32:-24])\<close>. Python's \<open>list.sort\<close> is a stable sort that
  compares the keys with \<open><\<close>; on strings that is the lexicographic order of the code
  points, which is the order of \<open>char list\<close> here. It is modelled by the stable insertion
  sort \<^const>\<open>sort_key\<close>.
\<close>

definition date_key :: "string \<Rightarrow> string" where
  "date_key x = py_slice (Some (- 32)) (Some (- 24)) x"

definition sort_keys :: "string list \<Rightarrow> string list" where
  "sort_keys keys = sort_key date_key keys"

text \<open>
  \<open>files = [key[-36:] for key in keys]\<close>, \<open>satellites = [x[:3] for x in files]\<close>,
  \<open>dates = [x[4:12] for x in files]\<close>, \<open>direction = [x[19:22] for x in files]\<close>.
\<close>

definition file_of :: "string \<Rightarrow> string" where
  "file_of key = py_slice (Some (- 36)) None key"

definition satellite_of :: "string \<Rightarrow> string" where
  "satellite_of x = py_slice None (Some 3) x"

definition date_of :: "string \<Rightarrow> string" where
  "date_of x = py_slice (Some 4) (Some 12) x"

definition direction_of :: "string \<Rightarrow> string" where
  "direction_of x = py_slice (Some 19) (Some 22) x"

record scene_table =
  keys :: "string list"
  files :: "string list"
  satellites :: "string list"
  dates :: "string list"
  direction :: "string list"

definition parse_keys :: "string list \<Rightarrow> scene_table" where
  "parse_keys ks =
     (let keys = sort_keys ks;
          files = map file_of keys
      in \<lparr> keys = keys, files = files,
           satellites = map satellite_of files,
           dates = map date_of files,
           direction = map direction_of files \<rparr>)"

text \<open>
  The path layout documented in the notebook:
  \<open>[SATELLITE]_[DATE]_[TILE ID]_[ORBIT DIRECTION]/[ASSET]\<close> below the year directory.
\<close>

definition scene_filename :: "string \<Rightarrow> string \<Rightarrow> string \<Rightarrow> string \<Rightarrow> string \<Rightarrow> string" where
  "scene_filename sat date tile orbit asset =
     sat @ ''_'' @ date @ ''_'' @ tile @ ''_'' @ orbit @ ''/'' @ asset"

text \<open>
  The date field read as a number, the way \<open>int(x)\<close> reads a string of ASCII digits. For
  eight digits \<open>YYYYMMDD\<close> the order of these numbers is the order of the calendar dates.
\<close>

definition is_digit :: "char \<Rightarrow> bool" where
  "is_digit c = (CHR ''0'' \<le> c \<and> c \<le> CHR ''9'')"

definition digit_val :: "char \<Rightarrow> int" where
  "digit_val c = of_char c - of_char CHR ''0''"

definition date_number :: "string \<Rightarrow> int" where
  "date_number s = foldl (\<lambda>a c. 10 * a + digit_val c) 0 s"

definition dated_key :: "string \<Rightarrow> bool" where
  "dated_key k = (32 \<le> length k \<and> list_all is_digit (date_key k))"

text \<open>
  Three mock object keys of the bucket's layout, listed with the dates 20200101, 20200103,
  20200102; the second is from the other platform (S1A), so it comes first in the plain
  alphabetical order.
\<close>

definition mock_key_a :: string where
  "mock_key_a = ''sentinel-s1-rtc-indigo/tiles/RTC/1/IW/12/S/YJ/2020/S1B_20200101_12SYJ_ASC/Gamma0_VV.tif''"

definition mock_key_b :: string where
  "mock_key_b = ''sentinel-s1-rtc-indigo/tiles/RTC/1/IW/12/S/YJ/2020/S1A_20200103_12SYJ_ASC/Gamma0_VV.tif''"

definition mock_key_c :: string where
  "mock_key_c = ''sentinel-s1-rtc-indigo/tiles/RTC/1/IW/12/S/YJ/2020/S1B_20200102_12SYJ_DSC/Gamma0_VV.tif''"

definition mock_keys :: "string list" where
  "mock_keys = [mock_key_a, mock_key_b, mock_key_c]"

section \<open>Storage listing and the manifest file\<close>

text \<open>
  Errors are values: every place where the notebook can raise is a branch returning
  \<open>Inl\<close> of the exception's class.
\<close>

datatype py_error = TypeError | ValueError | IndexError | KeyError | IOError

text \<open>
  The manifest cell: \<open>for key in keys: f.write("/vsis3/%s\\n" % key)\<close> on a file opened
  with mode \<open>'w'\<close>. The state of the loop is the content of the file.
\<close>

definition newline :: char where
  "newline = CHR 0x0A"

definition manifest_line :: "string \<Rightarrow> string" where
  "manifest_line key = ''/vsis3/'' @ key @ [newline]"

definition write_manifest :: "string list \<Rightarrow> string" where
  "write_manifest ks = fold (\<lambda>key f. f @ manifest_line key) ks []"

text \<open>
  The lines of a text file: the runs of characters ended by a newline, and a last
  unterminated run when there is one.
\<close>

fun lines_from :: "string \<Rightarrow> string \<Rightarrow> string list" where
  "lines_from cur [] = (if cur = [] then [] else [cur])"
| "lines_from cur (c # cs) =
     (if c = newline then cur # lines_from [] cs else lines_from (cur @ [c]) cs)"

definition text_lines :: "string \<Rightarrow> string list" where
  "text_lines s = lines_from [] s"

text \<open>
  \<open>keys = s3.glob(s3Path[5:])\<close>: the object keys of the listing that match the pattern,
  in sorted (alphabetical) order; the pattern's matching is a parameter. No match gives the
  empty list.
\<close>

definition glob :: "(string \<Rightarrow> bool) \<Rightarrow> string list \<Rightarrow> string list" where
  "glob matches listing = sort (filter matches listing)"

text \<open>
  The metadata cell reads \<open>url = s3Paths[0]\<close> with
  \<open>s3Paths = ['s3://' + key for key in keys]\<close>: an \<open>IndexError\<close> on an empty list.
\<close>

definition first_url :: "string list \<Rightarrow> py_error + string" where
  "first_url ks =
     (case map (\<lambda>key. ''s3://'' @ key) ks of [] \<Rightarrow> Inl IndexError | url # _ \<Rightarrow> Inr url)"



section \<open>Mosaic Construction and Temporal Relabeling\<close>

text \<open>
  A pixel is a number or missing (\<open>NaN\<close>, here \<open>None\<close>); arithmetic is exact, so the
  statements below are about which pixels enter a reduction, not about rounding. An image
  is a list of rows (the \<open>y\<close> axis) of pixels (the \<open>x\<close> axis).
\<close>

type_synonym pixel = "rat option"

type_synonym image = "pixel list list"

text \<open>
  What the raster library reads is a parameter: the grid of the tile at the resolution
  opened, the paths that open as a raster, the pixels behind each \<open>/vsis3/\<close> path, and
  the no-data value the files declare.
\<close>

record storage =
  st_y :: "rat list"
  st_x :: "rat list"
  st_opens :: "string \<Rightarrow> bool"
  st_read :: "string \<Rightarrow> image"
  st_nodata :: "rat option"

text \<open>
  The mosaic builder reads its input file list line by line; a line ends at a line feed,
  at a carriage return, or at a carriage return followed by a line feed.
\<close>

definition carriage_return :: char where
  "carriage_return = CHR 0x0D"

fun input_lines :: "string \<Rightarrow> string \<Rightarrow> string list" where
  "input_lines cur [] = (if cur = [] then [] else [cur])"
| "input_lines cur [c] =
     (if c = newline \<or> c = carriage_return then [cur] else [cur @ [c]])"
| "input_lines cur (c # d # cs) =
     (if c = carriage_return \<and> d = newline then cur # input_lines [] cs
      else if c = newline \<or> c = carriage_return then cur # input_lines [] (d # cs)
      else input_lines (cur @ [c]) (d # cs))"

definition input_file_list :: "string \<Rightarrow> string list" where
  "input_file_list manifest = input_lines [] manifest"

text \<open>
  The mosaic descriptor: \<open>gdalbuildvrt -separate -input_file_list s3paths.txt\<close> makes one
  band for each line of the manifest that opens as a raster, in the order of the lines,
  with no description; a line that does not open is skipped with a warning. With no
  source at all (an empty manifest, or no line that opens) the tool fails and writes no
  descriptor.
\<close>

record vrt =
  vrt_sources :: "string list"
  vrt_descriptions :: "string option list"

definition gdalbuildvrt :: "storage \<Rightarrow> string \<Rightarrow> vrt option" where
  "gdalbuildvrt st manifest =
     (let paths = filter (st_opens st) (input_file_list manifest)
      in if paths = [] then None
         else Some \<lparr> vrt_sources = paths, vrt_descriptions = map (\<lambda>p. None) paths \<rparr>)"

text \<open>
  \<open>with rasterio.open(vrtName, 'r+') as src\<close> raises when there is no descriptor (none
  left from an earlier run is assumed). \<open>src.descriptions = files\<close>: the setter takes one
  description for each band and raises \<open>ValueError\<close> on any other number of them.
\<close>

definition set_descriptions :: "string list \<Rightarrow> vrt \<Rightarrow> py_error + vrt" where
  "set_descriptions val v =
     (if length val = length (vrt_sources v)
      then Inr (v \<lparr> vrt_descriptions := map Some val \<rparr>)
      else Inl ValueError)"

definition construct_mosaic :: "storage \<Rightarrow> scene_table \<Rightarrow> py_error + vrt" where
  "construct_mosaic st tbl =
     (case gdalbuildvrt st (write_manifest (keys tbl)) of
        None \<Rightarrow> Inl IOError
      | Some v \<Rightarrow> set_descriptions (files tbl) v)"

text \<open>
  \<open>rioxarray.open_rasterio(vrtName, ...)\<close>: bands numbered from 1, in the order of the
  descriptor. With \<open>masked=True\<close> the pixels equal to the declared no-data value are read
  as missing.
\<close>

record band_array =
  ba_band :: "nat list"
  ba_y :: "rat list"
  ba_x :: "rat list"
  ba_values :: "image list"

record 't time_array =
  ta_time :: "'t list"
  ta_band :: "nat list"
  ta_y :: "rat list"
  ta_x :: "rat list"
  ta_values :: "image list"

definition open_rasterio :: "storage \<Rightarrow> vrt \<Rightarrow> band_array" where
  "open_rasterio st v =
     \<lparr> ba_band = [1 ..< Suc (length (vrt_sources v))],
       ba_y = st_y st, ba_x = st_x st,
       ba_values = map (st_read st) (vrt_sources v) \<rparr>"

definition mask_nodata :: "rat option \<Rightarrow> pixel \<Rightarrow> pixel" where
  "mask_nodata nd v = (case nd of None \<Rightarrow> v | Some n \<Rightarrow> if v = Some n then None else v)"

definition open_rasterio_masked :: "storage \<Rightarrow> vrt \<Rightarrow> band_array" where
  "open_rasterio_masked st v =
     (let da = open_rasterio st v
      in da \<lparr> ba_values := map (map (map (mask_nodata (st_nodata st)))) (ba_values da) \<rparr>)"

text \<open>
  \<open>filenames = src.descriptions\<close>,
  \<open>datetimes = [pd.to_datetime(x[4:12]) for x in filenames]\<close>. A band without description
  is \<open>None\<close>, and slicing it is a \<open>TypeError\<close>; the parser is a parameter and may fail.
\<close>

fun datetimes_of :: "(string \<Rightarrow> py_error + 't) \<Rightarrow> string option list \<Rightarrow> py_error + 't list" where
  "datetimes_of to_datetime [] = Inr []"
| "datetimes_of to_datetime (None # ds) = Inl TypeError"
| "datetimes_of to_datetime (Some x # ds) =
     (case to_datetime (date_of x) of
        Inl e \<Rightarrow> Inl e
      | Inr t \<Rightarrow> (case datetimes_of to_datetime ds of
                    Inl e \<Rightarrow> Inl e
                  | Inr ts \<Rightarrow> Inr (t # ts)))"

text \<open>
  \<open>da3.assign_coords(time=('band', datetimes))\<close> and \<open>swap_dims({'band': 'time'})\<close>: the
  new coordinate must have the length of the band dimension (\<open>ValueError\<close> otherwise); the
  values are not touched.
\<close>

definition assign_time :: "band_array \<Rightarrow> 't list \<Rightarrow> py_error + 't time_array" where
  "assign_time da datetimes =
     (if length datetimes = length (ba_band da)
      then Inr \<lparr> ta_time = datetimes, ta_band = ba_band da,
                 ta_y = ba_y da, ta_x = ba_x da, ta_values = ba_values da \<rparr>
      else Inl ValueError)"

definition temporal_relabel ::
  "storage \<Rightarrow> (string \<Rightarrow> py_error + 't) \<Rightarrow> vrt \<Rightarrow> py_error + 't time_array" where
  "temporal_relabel st to_datetime v =
     (let da3 = open_rasterio st v
      in case datetimes_of to_datetime (vrt_descriptions v) of
           Inl e \<Rightarrow> Inl e
         | Inr datetimes \<Rightarrow> assign_time da3 datetimes)"

text \<open>A storage and a date parser for the mock keys: every object is one pixel.\<close>

definition mock_storage :: storage where
  "mock_storage =
     \<lparr> st_y = [0], st_x = [0], st_opens = (\<lambda>p. True),
       st_read = (\<lambda>p. [[Some (of_int (date_number (date_of (file_of p))))]]),
       st_nodata = Some 0 \<rparr>"

definition mock_to_datetime :: "string \<Rightarrow> py_error + int" where
  "mock_to_datetime s =
     (if length s = 8 \<and> list_all is_digit s then Inr (date_number s) else Inl ValueError)"


section \<open>Aggregation\<close>

text \<open>
  \<open>da != 0\<close> and \<open>da.where(cond)\<close>, element by element: a pixel that fails the condition
  becomes missing. A missing pixel (\<open>NaN\<close>) is different from zero, so it passes and stays
  missing.
\<close>

definition ne0 :: "pixel \<Rightarrow> bool" where
  "ne0 v = (v \<noteq> Some 0)"

definition mask_zero :: "pixel \<Rightarrow> pixel" where
  "mask_zero v = (if ne0 v then v else None)"

definition where_ne0 :: "'t time_array \<Rightarrow> 't time_array" where
  "where_ne0 da = da \<lparr> ta_values := map (map (map mask_zero)) (ta_values da) \<rparr>"

text \<open>
  \<open>.mean()\<close> skips missing values; the mean of no value at all is missing (a warning, not
  an error).
\<close>

definition nanmean :: "pixel list \<Rightarrow> pixel" where
  "nanmean ps =
     (let vs = map the (filter (\<lambda>p. p \<noteq> None) ps)
      in if vs = [] then None else Some (sum_list vs / of_nat (length vs)))"

text \<open>
  \<open>.resample(time='1m')\<close> raises on a time axis that is empty (\<open>TypeError\<close>) or not in
  non-decreasing order (\<open>ValueError\<close>). Otherwise there is one bin for each calendar month
  from the month of the earliest to the month of the latest timestamp, the months without
  acquisition included. The calendar is a parameter \<open>month_of\<close> that numbers the months
  consecutively, in the order of time; a bin is labelled by the number of its month (the
  library labels it by the month's last day). The layers of a bin are the layers whose
  timestamp falls in its month, in axis order.
\<close>

definition month_bins :: "int list \<Rightarrow> int list" where
  "month_bins ms = (case ms of [] \<Rightarrow> [] | m # rest \<Rightarrow> [fold min rest m .. fold max rest m])"

definition layers_in :: "('t \<Rightarrow> int) \<Rightarrow> 't time_array \<Rightarrow> int \<Rightarrow> image list" where
  "layers_in month_of da b =
     map snd (filter (\<lambda>(t, img). month_of t = b) (zip (ta_time da) (ta_values da)))"

text \<open>The values of one pixel through a list of layers.\<close>

definition pixel_series :: "nat \<Rightarrow> nat \<Rightarrow> image list \<Rightarrow> pixel list" where
  "pixel_series r c imgs = map (\<lambda>img. img ! r ! c) imgs"

definition group_mean :: "nat \<Rightarrow> nat \<Rightarrow> image list \<Rightarrow> image" where
  "group_mean ny nx imgs =
     map (\<lambda>r. map (\<lambda>c. nanmean (pixel_series r c imgs)) [0 ..< nx]) [0 ..< ny]"

record period_array =
  pa_time :: "int list"
  pa_y :: "rat list"
  pa_x :: "rat list"
  pa_values :: "image list"

definition resample_bins :: "('t \<Rightarrow> int) \<Rightarrow> 't time_array \<Rightarrow> period_array" where
  "resample_bins month_of da =
     (let bins = month_bins (map month_of (ta_time da))
      in \<lparr> pa_time = bins, pa_y = ta_y da, pa_x = ta_x da,
           pa_values = map (\<lambda>b. group_mean (length (ta_y da)) (length (ta_x da))
                                   (layers_in month_of da b)) bins \<rparr>)"

definition resample_mean :: "('t::linorder \<Rightarrow> int) \<Rightarrow> 't time_array \<Rightarrow> py_error + period_array" where
  "resample_mean month_of da =
     (if ta_time da = [] then Inl TypeError
      else if \<not> sorted (ta_time da) then Inl ValueError
      else Inr (resample_bins month_of da))"

text \<open>
  The low-resolution composite:
  \<open>mosaic_mean = da.where(da!=0).resample(time='1m').mean()\<close>.
\<close>

definition mosaic_mean :: "('t::linorder \<Rightarrow> int) \<Rightarrow> 't time_array \<Rightarrow> py_error + period_array" where
  "mosaic_mean month_of da = resample_mean month_of (where_ne0 da)"

section \<open>Spatial and temporal extraction\<close>

text \<open>
  \<open>da.sel(x=slice(a, b))\<close> is a label slice of the coordinate index. On an ascending index
  it runs from the first label not below \<open>a\<close> to the last label not above \<open>b\<close>; on a
  descending index from the first label not above \<open>a\<close> to the last not below \<open>b\<close>; the
  ascending reading is tried first. An index that is neither is a \<open>KeyError\<close>. The result
  is the positional slice \<open>[lo:hi]\<close>.
\<close>

definition slice_locs :: "rat \<Rightarrow> rat \<Rightarrow> rat list \<Rightarrow> py_error + nat \<times> nat" where
  "slice_locs start stop idx =
     (if sorted idx
      then Inr (length (filter (\<lambda>c. c < start) idx), length (filter (\<lambda>c. c \<le> stop) idx))
      else if sorted (rev idx)
      then Inr (length (filter (\<lambda>c. start < c) idx), length (filter (\<lambda>c. stop \<le> c) idx))
      else Inl KeyError)"

definition isel :: "nat \<times> nat \<Rightarrow> 'a list \<Rightarrow> 'a list" where
  "isel se xs = drop (fst se) (take (snd se) xs)"

definition sel_box ::
  "rat \<Rightarrow> rat \<Rightarrow> rat \<Rightarrow> rat \<Rightarrow> 't time_array \<Rightarrow> py_error + 't time_array" where
  "sel_box x0 x1 y0 y1 da =
     (case slice_locs x0 x1 (ta_x da) of
        Inl e \<Rightarrow> Inl e
      | Inr xs \<Rightarrow>
          (case slice_locs y0 y1 (ta_y da) of
             Inl e \<Rightarrow> Inl e
           | Inr ys \<Rightarrow>
               Inr (da \<lparr> ta_y := isel ys (ta_y da), ta_x := isel xs (ta_x da),
                         ta_values := map (\<lambda>img. map (isel xs) (isel ys img)) (ta_values da) \<rparr>)))"

text \<open>
  The region of interest is a polygon, given by its vertices in the raster's coordinate
  system (a first vertex and the others). \<open>gfp.bounds.values[0]\<close> is
  \<open>(minx, miny, maxx, maxy)\<close>, and the cell unpacks it as
  \<open>xmin, ymax, xmax, ymin = gfp.bounds.values[0]\<close>, so that the \<open>y\<close> slice
  \<open>slice(ymin, ymax)\<close> runs from \<open>maxy\<close> down to \<open>miny\<close>.
\<close>

definition bounds :: "rat \<times> rat \<Rightarrow> (rat \<times> rat) list \<Rightarrow> rat \<times> rat \<times> rat \<times> rat" where
  "bounds p ps =
     (fold min (map fst ps) (fst p), fold min (map snd ps) (snd p),
      fold max (map fst ps) (fst p), fold max (map snd ps) (snd p))"

definition daT :: "rat \<times> rat \<Rightarrow> (rat \<times> rat) list \<Rightarrow> 't time_array \<Rightarrow> py_error + 't time_array" where
  "daT p ps da =
     (case bounds p ps of (xmin, ymax, xmax, ymin) \<Rightarrow> sel_box xmin xmax ymin ymax da)"

text \<open>
  \<open>daT.where(daT!=0, drop=True)\<close>: with \<open>drop=True\<close> every label of every dimension at
  which the condition holds nowhere is removed first (timestamps, rows and columns), then
  the pixels that fail the condition become missing.
\<close>

definition where_ne0_drop :: "'t time_array \<Rightarrow> 't time_array" where
  "where_ne0_drop da =
     (let vals = ta_values da;
          keep_t = filter (\<lambda>i. list_ex (list_ex ne0) (vals ! i)) [0 ..< length (ta_time da)];
          keep_y = filter (\<lambda>r. list_ex (\<lambda>img. list_ex ne0 (img ! r)) vals)
                     [0 ..< length (ta_y da)];
          keep_x = filter (\<lambda>c. list_ex (\<lambda>img. list_ex (\<lambda>row. ne0 (row ! c)) img) vals)
                     [0 ..< length (ta_x da)]
      in \<lparr> ta_time = map (\<lambda>i. ta_time da ! i) keep_t,
           ta_band = map (\<lambda>i. ta_band da ! i) keep_t,
           ta_y = map (\<lambda>r. ta_y da ! r) keep_y,
           ta_x = map (\<lambda>c. ta_x da ! c) keep_x,
           ta_values =
             map (\<lambda>i. map (\<lambda>r. map (\<lambda>c. mask_zero (vals ! i ! r ! c)) keep_x) keep_y) keep_t \<rparr>)"

text \<open>
  \<open>mean_trend = daT.where(daT!=0, drop=True).mean(dim=['x','y'])\<close>: one value for each
  timestamp that is left.
\<close>

definition mean_trend :: "'t time_array \<Rightarrow> ('t \<times> pixel) list" where
  "mean_trend d =
     (let w = where_ne0_drop d
      in zip (ta_time w) (map (\<lambda>img. nanmean (concat img)) (ta_values w)))"

text \<open>
  The full-resolution composite. The raster is opened with \<open>masked=True\<close> and relabelled
  with the same dates; then
  \<open>subset = da.sel(x=slice(7.345e5, 7.614e5), y=slice(4.3336e6, 4.306e6)).resample(time='1m').mean()\<close>.
\<close>

definition subset :: "('t::linorder \<Rightarrow> int) \<Rightarrow> 't time_array \<Rightarrow> py_error + period_array" where
  "subset month_of da =
     (case sel_box 734500 761400 4333600 4306000 da of
        Inl e \<Rightarrow> Inl e
      | Inr s \<Rightarrow> resample_mean month_of s)"

definition full_resolution ::
  "storage \<Rightarrow> vrt \<Rightarrow> 't list \<Rightarrow> py_error + 't time_array" where
  "full_resolution st v datetimes = assign_time (open_rasterio_masked st v) datetimes"

text \<open>
  The reductions the specification describes, for comparison: the mean of the values of
  a list of pixels that are present and different from a sentinel, missing when there is
  none.
\<close>

definition mean_excluding :: "rat option \<Rightarrow> pixel list \<Rightarrow> pixel" where
  "mean_excluding sentinel ps =
     (let vs = filter (\<lambda>v. Some v \<noteq> sentinel) (map the (filter (\<lambda>p. p \<noteq> None) ps))
      in if vs = [] then None else Some (sum_list vs / of_nat (length vs)))"


text \<open>
  The shape of an array: one image for each timestamp, every image with one row for each
  \<open>y\<close> label and one pixel for each \<open>x\<close> label.
\<close>

definition rectangular :: "'t time_array \<Rightarrow> bool" where
  "rectangular da =
     (length (ta_values da) = length (ta_time da) \<and>
      list_all (\<lambda>img. length img = length (ta_y da) \<and>
                  list_all (\<lambda>row. length row = length (ta_x da)) img) (ta_values da))"


text \<open>
  The cells composed: the time series over a region, and the full-resolution composite
  from the descriptor.
\<close>

definition region_mean_trend ::
  "rat \<times> rat \<Rightarrow> (rat \<times> rat) list \<Rightarrow> 't time_array \<Rightarrow> py_error + ('t \<times> pixel) list" where
  "region_mean_trend p ps da =
     (case daT p ps da of Inl e \<Rightarrow> Inl e | Inr d \<Rightarrow> Inr (mean_trend d))"

definition full_resolution_mean ::
  "storage \<Rightarrow> vrt \<Rightarrow> 't::linorder list \<Rightarrow> ('t \<Rightarrow> int) \<Rightarrow> py_error + period_array" where
  "full_resolution_mean st v datetimes month_of =
     (case full_resolution st v datetimes of
        Inl e \<Rightarrow> Inl e
      | Inr da \<Rightarrow> subset month_of da)"

section \<open>Example rasters\<close>

text \<open>
  Dates are the numbers \<open>YYYYMMDD\<close>; \<open>month_index\<close> numbers their calendar months
  consecutively.
\<close>

definition month_index :: "int \<Rightarrow> int" where
  "month_index d = (d div 10000) * 12 + (d div 100) mod 100 - 1"

text \<open>
  Three acquisitions on a north-up grid of 3 by 3 pixels, two in January and one in March
  2020; zero is the no-data sentinel. The bounding box of the triangle selects the two
  upper rows and the two right columns, where the March acquisition has no data.
\<close>

definition example_da :: "int time_array" where
  "example_da =
     \<lparr> ta_time = [20200105, 20200117, 20200310], ta_band = [1, 2, 3],
       ta_y = [4330000, 4320000, 4300000], ta_x = [734000, 740000, 750000],
       ta_values =
         [[[Some 0, Some 2, Some 4], [Some 0, Some 0, Some 0], [Some 1, Some 1, Some 1]],
          [[Some 0, Some 4, Some 0], [Some 0, Some 0, Some 0], [Some 1, Some 1, Some 1]],
          [[Some 0, Some 0, Some 0], [Some 0, Some 0, Some 0], [Some 0, Some 0, Some 5]]] \<rparr>"

definition example_vertex :: "rat \<times> rat" where
  "example_vertex = (739000, 4315000)"

definition example_vertices :: "(rat \<times> rat) list" where
  "example_vertices = [(752000, 4331000), (745000, 4325000)]"

text \<open>
  Acquisitions of January and March 2020 where the one of March has no data at all (a
  swath that misses the tile): February is a period without layer, March a period whose
  only layer is zero or missing everywhere.
\<close>

definition example_gap :: "int time_array" where
  "example_gap =
     \<lparr> ta_time = [20200105, 20200310], ta_band = [1, 2],
       ta_y = [4330000, 4320000], ta_x = [740000, 750000],
       ta_values =
         [[[Some 2, Some 0], [Some 0, Some 6]],
          [[Some 0, Some 0], [None, Some 0]]] \<rparr>"

text \<open>
  A storage whose files declare no no-data value, and the same with the value 0 declared;
  the descriptor of the three mock keys in sorted order.
\<close>

definition example_pixels :: "string \<Rightarrow> image" where
  "example_pixels p =
     (if date_of (file_of p) = ''20200101'' then
        [[Some 0, Some 0, Some 7], [Some 1, Some 3, Some 0], [Some 1, Some 1, Some 1]]
      else if date_of (file_of p) = ''20200102'' then
        [[Some 0, Some 2, Some 0], [Some 1, Some 0, Some 0], [Some 1, Some 1, Some 1]]
      else
        [[Some 0, Some 4, Some 0], [Some 1, Some 0, Some 0], [Some 1, Some 1, Some 1]])"

definition undeclared_storage :: storage where
  "undeclared_storage =
     \<lparr> st_y = [4330000, 4320000, 4300000], st_x = [734000, 740000, 750000],
       st_opens = (\<lambda>p. True), st_read = example_pixels, st_nodata = None \<rparr>"

definition declared_storage :: storage where
  "declared_storage = undeclared_storage \<lparr> st_nodata := Some 0 \<rparr>"

definition example_vrt :: vrt where
  "example_vrt =
     \<lparr> vrt_sources = map (\<lambda>k. ''/vsis3/'' @ k) [mock_key_a, mock_key_c, mock_key_b],
       vrt_descriptions = map (\<lambda>k. Some (file_of k)) [mock_key_a, mock_key_c, mock_key_b] \<rparr>"

text \<open>
  The three files as read without mask and relabelled, and their part inside the box of
  the full-resolution cell.
\<close>

definition example_times :: "int list" where
  "example_times = [20200101, 20200102, 20200103]"

definition example_raw :: "int time_array" where
  "example_raw =
     \<lparr> ta_time = [20200101, 20200102, 20200103], ta_band = [1, 2, 3],
       ta_y = [4330000, 4320000, 4300000], ta_x = [734000, 740000, 750000],
       ta_values =
         [[[Some 0, Some 0, Some 7], [Some 1, Some 3, Some 0], [Some 1, Some 1, Some 1]],
          [[Some 0, Some 2, Some 0], [Some 1, Some 0, Some 0], [Some 1, Some 1, Some 1]],
          [[Some 0, Some 4, Some 0], [Some 1, Some 0, Some 0], [Some 1, Some 1, Some 1]]] \<rparr>"

definition example_sub :: "int time_array" where
  "example_sub =
     \<lparr> ta_time = [20200101, 20200102, 20200103], ta_band = [1, 2, 3],
       ta_y = [4330000, 4320000], ta_x = [740000, 750000],
       ta_values =
         [[[Some 0, Some 7], [Some 3, Some 0]],
          [[Some 2, Some 0], [Some 0, Some 0]],
          [[Some 4, Some 0], [Some 0, Some 0]]] \<rparr>"

text \<open>The mock mosaic as relabelled over the one-pixel storage.\<close>

definition mock_relabelled :: "int time_array" where
  "mock_relabelled =
     \<lparr> ta_time = [20200101, 20200102, 20200103], ta_band = [1, 2, 3],
       ta_y = [0], ta_x = [0],
       ta_values = [[[Some 20200101]], [[Some 20200102]], [[Some 20200103]]] \<rparr>"

section \<open>Lemmas on slices, dates and the manifest\<close>

lemma slice_bound_back: "slice_bound n (- int m) = (if m = 0 then 0 else n - m)"
  by (simp add: slice_bound_def) linarith

lemma slice_bound_front: "slice_bound n (int m) = min m n"
  by (simp add: slice_bound_def)

lemma slice_back_36: "slice_bound n (- 36) = n - 36"
  using slice_bound_back [of n 36] by simp

lemma slice_back_32: "slice_bound n (- 32) = n - 32"
  using slice_bound_back [of n 32] by simp

lemma slice_back_24: "slice_bound n (- 24) = n - 24"
  using slice_bound_back [of n 24] by simp

lemma date_key_drop_take: "date_key k = drop (length k - 32) (take (length k - 24) k)"
  by (simp add: date_key_def py_slice_def Let_def slice_back_32 slice_back_24)

lemma file_of_drop: "file_of k = drop (length k - 36) k"
  by (simp add: file_of_def py_slice_def Let_def slice_back_36)

lemma date_of_drop_take: "date_of x = drop 4 (take 12 x)"
  using slice_bound_front [of "length x" 4] slice_bound_front [of "length x" 12]
  by (simp add: date_of_def py_slice_def Let_def min_def)

lemma foldl_dec_shift:
  "foldl (\<lambda>a c. 10 * a + digit_val c) a s = a * 10 ^ length s + date_number s"
  unfolding date_number_def
proof (induction s arbitrary: a)
  case Nil
  show ?case by simp
next
  case (Cons c cs)
  show ?case
    using Cons.IH [of "10 * a + digit_val c"] Cons.IH [of "digit_val c"]
    by (simp add: algebra_simps)
qed

lemma date_number_Cons:
  "date_number (c # cs) = digit_val c * 10 ^ length cs + date_number cs"
  using foldl_dec_shift [of "digit_val c" cs] by (simp add: date_number_def)

lemma digit_val_nat: "digit_val c = int (of_char c) - 48"
proof -
  have "(of_char c :: int) = int (of_char c)"
    by (rule of_nat_of_char [symmetric])
  then show ?thesis
    by (simp only: digit_val_def) simp
qed

lemma digit_val_range: "is_digit c \<Longrightarrow> 0 \<le> digit_val c \<and> digit_val c \<le> 9"
  by (simp add: is_digit_def less_eq_char_def digit_val_nat)

lemma date_number_bound:
  "list_all is_digit s \<Longrightarrow> 0 \<le> date_number s \<and> date_number s < 10 ^ length s"
proof (induction s)
  case Nil
  show ?case by (simp add: date_number_def)
next
  case (Cons c cs)
  have d: "0 \<le> digit_val c" "digit_val c \<le> 9"
    using Cons.prems digit_val_range by simp_all
  have "digit_val c * 10 ^ length cs \<le> 9 * 10 ^ length cs"
    using d by (intro mult_right_mono) simp_all
  moreover have "0 \<le> digit_val c * 10 ^ length cs"
    using d by simp
  moreover have "0 \<le> date_number cs" "date_number cs < 10 ^ length cs"
    using Cons by simp_all
  ultimately have "0 \<le> digit_val c * 10 ^ length cs + date_number cs \<and>
      digit_val c * 10 ^ length cs + date_number cs < 9 * 10 ^ length cs + 10 ^ length cs"
    by linarith
  then show ?case
    by (simp add: date_number_Cons)
qed

lemma digit_val_mono: "(a < b) = (digit_val a < digit_val b)"
  by (simp add: digit_val_nat less_char_def)

lemma digit_val_inj: "(a = b) = (digit_val a = digit_val b)"
  by (simp add: digit_val_nat)

lemma digits_le_iff:
  "length xs = length ys \<Longrightarrow> list_all is_digit xs \<Longrightarrow> list_all is_digit ys \<Longrightarrow>
   (xs \<le> ys) = (date_number xs \<le> date_number ys)"
proof (induction xs ys rule: list_induct2)
  case Nil
  show ?case by simp
next
  case (Cons a xs b ys)
  have bx: "0 \<le> date_number xs" "date_number xs < 10 ^ length ys"
    using date_number_bound [of xs] Cons by simp_all
  have by': "0 \<le> date_number ys" "date_number ys < 10 ^ length ys"
    using date_number_bound [of ys] Cons by simp_all
  have ih: "(xs \<le> ys) = (date_number xs \<le> date_number ys)"
    using Cons by simp
  consider "digit_val a < digit_val b" | "digit_val a = digit_val b" | "digit_val b < digit_val a"
    by linarith
  then show ?case
  proof cases
    case 1
    then have "digit_val a + 1 \<le> digit_val b" by simp
    then have "(digit_val a + 1) * 10 ^ length ys \<le> digit_val b * 10 ^ length ys"
      by (intro mult_right_mono) simp_all
    then have "digit_val a * 10 ^ length ys + date_number xs \<le> digit_val b * 10 ^ length ys + date_number ys"
      using bx by' by (simp add: algebra_simps)
    moreover have "a < b" using 1 digit_val_mono by simp
    ultimately show ?thesis
      using Cons.hyps by (simp add: date_number_Cons)
  next
    case 2
    then have "a = b" using digit_val_inj by simp
    then show ?thesis
      using Cons.hyps ih by (simp add: date_number_Cons)
  next
    case 3
    then have "digit_val b + 1 \<le> digit_val a" by simp
    then have "(digit_val b + 1) * 10 ^ length ys \<le> digit_val a * 10 ^ length ys"
      by (intro mult_right_mono) simp_all
    then have "\<not> digit_val a * 10 ^ length ys + date_number xs \<le> digit_val b * 10 ^ length ys + date_number ys"
      using bx by' by (simp add: algebra_simps)
    moreover have "\<not> a < b" "a \<noteq> b" using 3 digit_val_mono [of a b] digit_val_inj [of a b] by simp_all
    ultimately show ?thesis
      using Cons.hyps by (simp add: date_number_Cons)
  qed
qed

lemma length_date_key: "32 \<le> length k \<Longrightarrow> length (date_key k) = 8"
  by (simp add: date_key_def py_slice_def slice_bound_def Let_def)

lemma sorted_map_date_number:
  "sorted (map date_key ks) \<Longrightarrow> list_all dated_key ks \<Longrightarrow>
   sorted (map (\<lambda>k. date_number (date_key k)) ks)"
proof (induction ks)
  case Nil
  show ?case by simp
next
  case (Cons k ks)
  have "\<forall>j\<in>set ks. date_number (date_key k) \<le> date_number (date_key j)"
  proof
    fix j assume j: "j \<in> set ks"
    have le: "date_key k \<le> date_key j" using Cons.prems(1) j by simp
    have dj: "dated_key j" using Cons.prems(2) j by (simp add: list_all_iff)
    have dk: "dated_key k" using Cons.prems(2) by simp
    have "length (date_key k) = length (date_key j)"
      using dj dk length_date_key by (simp add: dated_key_def)
    then show "date_number (date_key k) \<le> date_number (date_key j)"
      using digits_le_iff [of "date_key k" "date_key j"] dj dk le
      by (simp add: dated_key_def)
  qed
  then show ?case using Cons by simp
qed


lemma lines_from_terminated:
  "newline \<notin> set l \<Longrightarrow> lines_from cur (l @ newline # rest) = (cur @ l) # lines_from [] rest"
  by (induction l arbitrary: cur) auto

lemma fold_write:
  "fold (\<lambda>key f. f @ manifest_line key) ks acc = acc @ concat (map manifest_line ks)"
  by (induction ks arbitrary: acc) simp_all

lemma write_manifest_concat:
  "write_manifest ks = concat (map manifest_line ks)"
  by (simp add: write_manifest_def fold_write)

lemma text_lines_manifest:
  "list_all (\<lambda>k. newline \<notin> set k) ks \<Longrightarrow>
   text_lines (write_manifest ks) = map (\<lambda>k. ''/vsis3/'' @ k) ks"
proof (induction ks)
  case Nil
  show ?case by (simp add: write_manifest_concat text_lines_def)
next
  case (Cons k ks)
  have nl: "newline \<notin> set (''/vsis3/'' @ k)"
    using Cons.prems by (simp add: newline_def)
  have "lines_from [] ((''/vsis3/'' @ k) @ newline # write_manifest ks) =
        ([] @ ''/vsis3/'' @ k) # lines_from [] (write_manifest ks)"
    using nl by (rule lines_from_terminated)
  then show ?case
    using Cons by (simp add: write_manifest_concat text_lines_def manifest_line_def)
qed


section \<open>Lemmas on the mosaic and the relabeling\<close>

lemma first_url_empty: "first_url [] = Inl IndexError"
  by (simp add: first_url_def)

lemma input_lines_terminated:
  "newline \<notin> set l \<Longrightarrow> carriage_return \<notin> set l \<Longrightarrow>
   input_lines cur (l @ newline # rest) = (cur @ l) # input_lines [] rest"
proof (induction l arbitrary: cur)
  case Nil
  have "newline \<noteq> carriage_return"
    by (simp add: newline_def carriage_return_def)
  then show ?case
    by (cases rest) simp_all
next
  case (Cons a l)
  have a: "a \<noteq> newline" "a \<noteq> carriage_return"
    using Cons.prems by auto
  have "input_lines cur (a # (l @ newline # rest)) = input_lines (cur @ [a]) (l @ newline # rest)"
    using a by (cases l) simp_all
  then show ?case
    using Cons by simp
qed

lemma input_file_list_manifest:
  "list_all (\<lambda>k. newline \<notin> set k \<and> carriage_return \<notin> set k) ks \<Longrightarrow>
   input_file_list (write_manifest ks) = map (\<lambda>k. ''/vsis3/'' @ k) ks"
proof (induction ks)
  case Nil
  show ?case by (simp add: write_manifest_concat input_file_list_def)
next
  case (Cons k ks)
  have nl: "newline \<notin> set (''/vsis3/'' @ k)" "carriage_return \<notin> set (''/vsis3/'' @ k)"
    using Cons.prems by (simp_all add: newline_def carriage_return_def)
  have "input_lines [] ((''/vsis3/'' @ k) @ newline # write_manifest ks) =
        ([] @ ''/vsis3/'' @ k) # input_lines [] (write_manifest ks)"
    using nl by (rule input_lines_terminated)
  then show ?case
    using Cons by (simp add: write_manifest_concat input_file_list_def manifest_line_def)
qed

lemma filter_full:
  "length (filter P xs) = length xs \<Longrightarrow> filter P xs = xs"
proof (induction xs)
  case Nil
  show ?case by simp
next
  case (Cons x xs)
  have le: "length (filter P xs) \<le> length xs"
    by (rule length_filter_le)
  show ?case
  proof (cases "P x")
    case True
    then show ?thesis using Cons by simp
  next
    case False
    then show ?thesis using Cons.prems le by simp
  qed
qed

lemma parse_keys_fields:
  "keys (parse_keys ks) = sort_keys ks"
  "files (parse_keys ks) = map file_of (sort_keys ks)"
  "satellites (parse_keys ks) = map satellite_of (files (parse_keys ks))"
  "dates (parse_keys ks) = map date_of (files (parse_keys ks))"
  "direction (parse_keys ks) = map direction_of (files (parse_keys ks))"
  "length (sort_keys ks) = length ks"
  by (simp_all add: parse_keys_def Let_def sort_keys_def)

lemma construct_mosaic_empty: "construct_mosaic st (parse_keys []) = Inl IOError"
  by (simp add: construct_mosaic_def gdalbuildvrt_def parse_keys_fields sort_keys_def
      write_manifest_def input_file_list_def)

lemma construct_mosaic_built:
  assumes clean: "list_all (\<lambda>k. newline \<notin> set k \<and> carriage_return \<notin> set k) (keys tbl)"
    and ne: "keys tbl \<noteq> []"
    and opens: "list_all (\<lambda>k. st_opens st (''/vsis3/'' @ k)) (keys tbl)"
    and len: "length (files tbl) = length (keys tbl)"
  shows "construct_mosaic st tbl =
     Inr \<lparr> vrt_sources = map (\<lambda>k. ''/vsis3/'' @ k) (keys tbl),
           vrt_descriptions = map Some (files tbl) \<rparr>"
proof -
  let ?paths = "map (\<lambda>k. ''/vsis3/'' @ k) (keys tbl)"
  have l: "input_file_list (write_manifest (keys tbl)) = ?paths"
    using clean by (rule input_file_list_manifest)
  have "\<forall>p\<in>set ?paths. st_opens st p"
    using opens by (auto simp add: list_all_iff)
  then have f: "filter (st_opens st) ?paths = ?paths"
    by (simp only: filter_id_conv)
  have n: "?paths \<noteq> []"
    using ne by simp
  have "gdalbuildvrt st (write_manifest (keys tbl)) =
      Some \<lparr> vrt_sources = ?paths, vrt_descriptions = map (\<lambda>p. None) ?paths \<rparr>"
    unfolding gdalbuildvrt_def l f Let_def using n by (simp only: if_False)
  then show ?thesis
    using len by (simp add: construct_mosaic_def set_descriptions_def)
qed

lemma construct_mosaic_Inr:
  assumes clean: "list_all (\<lambda>k. newline \<notin> set k \<and> carriage_return \<notin> set k) (keys tbl)"
    and len: "length (files tbl) = length (keys tbl)"
    and built: "construct_mosaic st tbl = Inr v"
  shows "vrt_sources v = map (\<lambda>k. ''/vsis3/'' @ k) (keys tbl)"
    and "vrt_descriptions v = map Some (files tbl)"
    and "keys tbl \<noteq> []"
proof -
  define paths where "paths = map (\<lambda>k. ''/vsis3/'' @ k) (keys tbl)"
  define kept where "kept = filter (st_opens st) paths"
  have l: "input_file_list (write_manifest (keys tbl)) = paths"
    unfolding paths_def using clean by (rule input_file_list_manifest)
  have g: "gdalbuildvrt st (write_manifest (keys tbl)) =
      (if kept = [] then None
       else Some \<lparr> vrt_sources = kept, vrt_descriptions = map (\<lambda>p. None) kept \<rparr>)"
    unfolding gdalbuildvrt_def l Let_def kept_def ..
  have ne: "kept \<noteq> []"
    using built by (auto simp add: construct_mosaic_def g)
  then have s: "set_descriptions (files tbl)
      \<lparr> vrt_sources = kept, vrt_descriptions = map (\<lambda>p. None) kept \<rparr> = Inr v"
    using built by (simp add: construct_mosaic_def g)
  then have eq: "length (files tbl) = length kept"
    by (simp add: set_descriptions_def split: if_splits)
  then have "length (filter (st_opens st) paths) = length paths"
    using len by (simp add: kept_def paths_def)
  then have k: "kept = paths"
    unfolding kept_def by (rule filter_full)
  have v: "v = \<lparr> vrt_sources = kept, vrt_descriptions = map Some (files tbl) \<rparr>"
    using s eq by (simp add: set_descriptions_def)
  show "vrt_sources v = map (\<lambda>k. ''/vsis3/'' @ k) (keys tbl)"
    by (simp only: v k paths_def vrt.simps)
  show "vrt_descriptions v = map Some (files tbl)"
    by (simp only: v vrt.simps)
  show "keys tbl \<noteq> []"
    using ne k by (auto simp add: paths_def)
qed

lemma datetimes_of_Inr:
  "datetimes_of to_datetime (map Some xs) = Inr ts \<Longrightarrow>
   length ts = length xs \<and> (\<forall>i<length xs. to_datetime (date_of (xs ! i)) = Inr (ts ! i))"
proof (induction xs arbitrary: ts)
  case Nil
  then show ?case by simp
next
  case (Cons x xs)
  obtain t where t: "to_datetime (date_of x) = Inr t"
    using Cons.prems by (cases "to_datetime (date_of x)") simp_all
  obtain ts' where ts': "datetimes_of to_datetime (map Some xs) = Inr ts'"
    using Cons.prems t by (cases "datetimes_of to_datetime (map Some xs)") simp_all
  have eq: "ts = t # ts'"
    using Cons.prems t ts' by simp
  have ih: "length ts' = length xs" "\<forall>i<length xs. to_datetime (date_of (xs ! i)) = Inr (ts' ! i)"
    using Cons.IH [OF ts'] by simp_all
  have "\<forall>i<length (x # xs). to_datetime (date_of ((x # xs) ! i)) = Inr (ts ! i)"
  proof (intro allI impI)
    fix i assume "i < length (x # xs)"
    then show "to_datetime (date_of ((x # xs) ! i)) = Inr (ts ! i)"
      using t ih(2) eq by (cases i) simp_all
  qed
  then show ?case
    using ih(1) eq by simp
qed

lemma temporal_relabel_Inr:
  assumes d: "vrt_descriptions v = map Some fs"
    and r: "temporal_relabel st to_datetime v = Inr da"
  shows "length (ta_time da) = length fs"
    and "\<forall>i<length fs. to_datetime (date_of (fs ! i)) = Inr (ta_time da ! i)"
    and "ta_band da = [1 ..< Suc (length (vrt_sources v))]"
    and "ta_values da = map (st_read st) (vrt_sources v)"
    and "ta_y da = st_y st" and "ta_x da = st_x st"
proof -
  obtain ts where ts: "datetimes_of to_datetime (map Some fs) = Inr ts"
    using r d by (cases "datetimes_of to_datetime (map Some fs)")
      (simp_all add: temporal_relabel_def Let_def)
  have a: "assign_time (open_rasterio st v) ts = Inr da"
    using r d ts by (simp add: temporal_relabel_def Let_def)
  then have da: "da = \<lparr> ta_time = ts, ta_band = ba_band (open_rasterio st v),
      ta_y = ba_y (open_rasterio st v), ta_x = ba_x (open_rasterio st v),
      ta_values = ba_values (open_rasterio st v) \<rparr>"
    by (simp add: assign_time_def split: if_splits)
  show "length (ta_time da) = length fs"
    using datetimes_of_Inr [OF ts] by (simp add: da)
  show "\<forall>i<length fs. to_datetime (date_of (fs ! i)) = Inr (ta_time da ! i)"
    using datetimes_of_Inr [OF ts] by (simp add: da)
  show "ta_band da = [1 ..< Suc (length (vrt_sources v))]"
    by (simp add: da open_rasterio_def del: upt_Suc)
  show "ta_values da = map (st_read st) (vrt_sources v)"
    by (simp add: da open_rasterio_def)
  show "ta_y da = st_y st" and "ta_x da = st_x st"
    by (simp_all add: da open_rasterio_def)
qed

lemma datetimes_of_map:
  "list_all (\<lambda>x. to_datetime (date_of x) = Inr (stamp (date_of x))) xs \<Longrightarrow>
   datetimes_of to_datetime (map Some xs) = Inr (map (\<lambda>x. stamp (date_of x)) xs)"
  by (induction xs) simp_all

lemma temporal_relabel_described:
  assumes "vrt_descriptions v = map Some fs"
    and "length (vrt_sources v) = length fs"
    and "list_all (\<lambda>x. to_datetime (date_of x) = Inr (stamp (date_of x))) fs"
  shows "temporal_relabel st to_datetime v =
     Inr \<lparr> ta_time = map (\<lambda>x. stamp (date_of x)) fs, ta_band = [1 ..< Suc (length fs)],
           ta_y = st_y st, ta_x = st_x st, ta_values = map (st_read st) (vrt_sources v) \<rparr>"
  using assms
  by (simp add: temporal_relabel_def datetimes_of_map assign_time_def open_rasterio_def
      Let_def del: upt_Suc)


section \<open>Lemmas on the aggregation\<close>

lemma group_mean_nth:
  "r < ny \<Longrightarrow> c < nx \<Longrightarrow>
   group_mean ny nx imgs ! r ! c = nanmean (map (\<lambda>img. img ! r ! c) imgs)"
  by (simp add: group_mean_def pixel_series_def)

lemma resample_bins_fields:
  "pa_time (resample_bins month_of da) = month_bins (map month_of (ta_time da))"
  "pa_y (resample_bins month_of da) = ta_y da"
  "pa_x (resample_bins month_of da) = ta_x da"
  "length (pa_values (resample_bins month_of da)) = length (pa_time (resample_bins month_of da))"
  by (simp_all add: resample_bins_def Let_def)

lemma resample_bins_nth:
  "i < length (pa_time (resample_bins month_of da)) \<Longrightarrow>
   pa_values (resample_bins month_of da) ! i =
     group_mean (length (ta_y da)) (length (ta_x da))
       (layers_in month_of da (pa_time (resample_bins month_of da) ! i))"
  by (simp add: resample_bins_def Let_def)

lemma filter_zip_map_snd:
  "map snd (filter (\<lambda>(t, img). P t) (zip ts (map f vs))) =
   map f (map snd (filter (\<lambda>(t, img). P t) (zip ts vs)))"
proof (induction ts arbitrary: vs)
  case Nil
  show ?case by simp
next
  case (Cons t ts)
  show ?case
    using Cons.IH by (cases vs) simp_all
qed

lemma layers_in_map:
  "layers_in month_of (da \<lparr> ta_values := map f (ta_values da) \<rparr>) b =
   map f (layers_in month_of da b)"
  by (simp add: layers_in_def filter_zip_map_snd)

lemma layers_in_subset:
  "set (layers_in month_of da b) \<subseteq> set (ta_values da)"
proof -
  have "set (filter (\<lambda>(t, img). month_of t = b) (zip (ta_time da) (ta_values da)))
      \<subseteq> set (zip (ta_time da) (ta_values da))"
    by simp
  then show ?thesis
    unfolding layers_in_def by (auto dest: set_zip_rightD)
qed

lemma present_mask_zero:
  "map the (filter (\<lambda>p. p \<noteq> None) (map mask_zero ps)) =
   filter (\<lambda>v. Some v \<noteq> Some 0) (map the (filter (\<lambda>p. p \<noteq> None) ps))"
proof (induction ps)
  case Nil
  show ?case by simp
next
  case (Cons p ps)
  show ?case
    using Cons.IH by (cases p) (simp_all add: mask_zero_def ne0_def)
qed

lemma nanmean_mask_zero:
  "nanmean (map mask_zero ps) = mean_excluding (Some 0) ps"
  by (simp only: nanmean_def mean_excluding_def present_mask_zero)

lemma present_mask_nodata:
  "map the (filter (\<lambda>p. p \<noteq> None) (map (mask_nodata nd) ps)) =
   filter (\<lambda>v. Some v \<noteq> nd) (map the (filter (\<lambda>p. p \<noteq> None) ps))"
proof (induction ps)
  case Nil
  show ?case by simp
next
  case (Cons p ps)
  show ?case
    using Cons.IH by (cases p; cases nd) (auto simp add: mask_nodata_def)
qed

lemma nanmean_mask_nodata:
  "nanmean (map (mask_nodata nd) ps) = mean_excluding nd ps"
  by (simp only: nanmean_def mean_excluding_def present_mask_nodata)

lemma rectangular_nth:
  assumes "rectangular da" and "img \<in> set (ta_values da)"
    and "r < length (ta_y da)" and "c < length (ta_x da)"
  shows "r < length img" and "c < length (img ! r)"
proof -
  have a: "length img = length (ta_y da)"
    and b: "\<forall>row\<in>set img. length row = length (ta_x da)"
    using assms(1,2) by (simp_all add: rectangular_def list_all_iff)
  show "r < length img"
    using a assms(3) by simp
  then have "img ! r \<in> set img"
    by simp
  then show "c < length (img ! r)"
    using b assms(4) by simp
qed

lemma pixel_series_map:
  assumes "rectangular da" and "set imgs \<subseteq> set (ta_values da)"
    and "r < length (ta_y da)" and "c < length (ta_x da)"
  shows "map (\<lambda>img. img ! r ! c) (map (map (map f)) imgs) =
         map f (map (\<lambda>img. img ! r ! c) imgs)"
proof -
  have "\<forall>img\<in>set imgs. map (map f) img ! r ! c = f (img ! r ! c)"
  proof
    fix img assume "img \<in> set imgs"
    then have "img \<in> set (ta_values da)"
      using assms(2) by blast
    then have "r < length img" "c < length (img ! r)"
      using rectangular_nth [OF assms(1) _ assms(3,4)] by simp_all
    then show "map (map f) img ! r ! c = f (img ! r ! c)"
      by simp
  qed
  then show ?thesis
    by simp
qed

lemma masked_bins_pixel:
  assumes rect: "rectangular da"
    and i: "i < length (pa_time (resample_bins month_of (where_ne0 da)))"
    and r: "r < length (ta_y da)" and c: "c < length (ta_x da)"
  shows "pa_values (resample_bins month_of (where_ne0 da)) ! i ! r ! c =
     mean_excluding (Some 0)
       (map (\<lambda>img. img ! r ! c) (layers_in month_of da (pa_time (resample_bins month_of (where_ne0 da)) ! i)))"
proof -
  let ?b = "pa_time (resample_bins month_of (where_ne0 da)) ! i"
  have w: "ta_y (where_ne0 da) = ta_y da" "ta_x (where_ne0 da) = ta_x da"
    by (simp_all add: where_ne0_def)
  have l: "layers_in month_of (where_ne0 da) ?b = map (map (map mask_zero)) (layers_in month_of da ?b)"
    unfolding where_ne0_def by (rule layers_in_map)
  have "pa_values (resample_bins month_of (where_ne0 da)) ! i =
      group_mean (length (ta_y da)) (length (ta_x da)) (layers_in month_of (where_ne0 da) ?b)"
    using i resample_bins_nth [of i month_of "where_ne0 da"]
    by (simp add: w)
  then have "pa_values (resample_bins month_of (where_ne0 da)) ! i ! r ! c =
      nanmean (map (\<lambda>img. img ! r ! c) (map (map (map mask_zero)) (layers_in month_of da ?b)))"
    using r c by (simp add: group_mean_nth l)
  also have "\<dots> = nanmean (map mask_zero (map (\<lambda>img. img ! r ! c) (layers_in month_of da ?b)))"
    by (simp only: pixel_series_map [OF rect layers_in_subset r c])
  finally show ?thesis
    by (simp only: nanmean_mask_zero)
qed


lemma resample_mean_ok:
  "ta_time da \<noteq> [] \<Longrightarrow> sorted (ta_time da) \<Longrightarrow>
   resample_mean month_of da = Inr (resample_bins month_of da)"
  by (simp add: resample_mean_def)

lemma mosaic_mean_ok:
  "ta_time da \<noteq> [] \<Longrightarrow> sorted (ta_time da) \<Longrightarrow>
   mosaic_mean month_of da = Inr (resample_bins month_of (where_ne0 da))"
  by (simp add: mosaic_mean_def resample_mean_def where_ne0_def)

lemma mosaic_mean_raises:
  "mosaic_mean month_of (da \<lparr> ta_time := [] \<rparr>) = Inl TypeError"
  "\<not> sorted (ta_time da) \<Longrightarrow> mosaic_mean month_of da = Inl ValueError"
  by (auto simp add: mosaic_mean_def resample_mean_def where_ne0_def)

section \<open>Lemmas on label slices of sorted indexes\<close>

lemma count_between:
  fixes a b :: "'a::linorder"
  shows "length (filter (\<lambda>c. c \<le> b) xs) - length (filter (\<lambda>c. c < a) xs) =
         length (filter (\<lambda>c. a \<le> c \<and> c \<le> b) xs)"
proof (cases "a \<le> b")
  case True
  have "length (filter (\<lambda>c. c \<le> b) xs) =
      length (filter (\<lambda>c. c < a) xs) + length (filter (\<lambda>c. a \<le> c \<and> c \<le> b) xs)"
    using True by (induction xs) auto
  then show ?thesis by simp
next
  case False
  have "length (filter (\<lambda>c. c \<le> b) xs) \<le> length (filter (\<lambda>c. c < a) xs)"
    using False by (induction xs) auto
  moreover have "filter (\<lambda>c. a \<le> c \<and> c \<le> b) xs = []"
    using False by (induction xs) auto
  ultimately show ?thesis by simp
qed

lemma sorted_drop_below:
  fixes a :: "'a::linorder"
  shows "sorted xs \<Longrightarrow> drop (length (filter (\<lambda>c. c < a) xs)) xs = filter (\<lambda>c. a \<le> c) xs"
proof (induction xs)
  case Nil
  show ?case by simp
next
  case (Cons x xs)
  show ?case
  proof (cases "x < a")
    case True
    then show ?thesis using Cons by simp
  next
    case False
    then have "\<forall>y\<in>set xs. a \<le> y"
      using Cons.prems by auto
    then have "filter (\<lambda>c. c < a) xs = []" "filter (\<lambda>c. a \<le> c) xs = xs"
      by (auto simp add: filter_empty_conv filter_id_conv)
    then show ?thesis using False by simp
  qed
qed

lemma sorted_take_upto:
  fixes b :: "'a::linorder"
  shows "sorted xs \<Longrightarrow> take (length (filter (\<lambda>c. c \<le> b) xs)) xs = filter (\<lambda>c. c \<le> b) xs"
proof (induction xs)
  case Nil
  show ?case by simp
next
  case (Cons x xs)
  show ?case
  proof (cases "x \<le> b")
    case True
    then show ?thesis using Cons by simp
  next
    case False
    then have "\<forall>y\<in>set xs. \<not> y \<le> b"
      using Cons.prems by auto
    then have "filter (\<lambda>c. c \<le> b) xs = []"
      by (simp add: filter_empty_conv)
    then show ?thesis using False by simp
  qed
qed

lemma isel_ascending:
  fixes a b :: "'a::linorder"
  assumes "sorted xs"
  shows "isel (length (filter (\<lambda>c. c < a) xs), length (filter (\<lambda>c. c \<le> b) xs)) xs =
         filter (\<lambda>c. a \<le> c \<and> c \<le> b) xs"
proof -
  let ?ys = "filter (\<lambda>c. a \<le> c) xs"
  have s: "sorted ?ys"
    using assms by (rule sorted_wrt_filter)
  have "isel (length (filter (\<lambda>c. c < a) xs), length (filter (\<lambda>c. c \<le> b) xs)) xs =
      take (length (filter (\<lambda>c. c \<le> b) xs) - length (filter (\<lambda>c. c < a) xs)) ?ys"
    using sorted_drop_below [OF assms, of a] by (simp add: isel_def drop_take)
  also have "\<dots> = take (length (filter (\<lambda>c. c \<le> b) ?ys)) ?ys"
    by (simp add: count_between conj_commute)
  also have "\<dots> = filter (\<lambda>c. c \<le> b) ?ys"
    using s by (rule sorted_take_upto)
  finally show ?thesis
    by (simp add: conj_commute)
qed

lemma count_between_desc:
  fixes a b :: "'a::linorder"
  shows "length (filter (\<lambda>c. b \<le> c) xs) - length (filter (\<lambda>c. a < c) xs) =
         length (filter (\<lambda>c. b \<le> c \<and> c \<le> a) xs)"
proof (cases "b \<le> a")
  case True
  have "length (filter (\<lambda>c. b \<le> c) xs) =
      length (filter (\<lambda>c. a < c) xs) + length (filter (\<lambda>c. b \<le> c \<and> c \<le> a) xs)"
    using True by (induction xs) auto
  then show ?thesis by simp
next
  case False
  have "length (filter (\<lambda>c. b \<le> c) xs) \<le> length (filter (\<lambda>c. a < c) xs)"
    using False by (induction xs) auto
  moreover have "filter (\<lambda>c. b \<le> c \<and> c \<le> a) xs = []"
    using False by (induction xs) auto
  ultimately show ?thesis by simp
qed

lemma descending_Cons:
  "sorted (rev (x # xs)) \<Longrightarrow> sorted (rev xs) \<and> (\<forall>y\<in>set xs. y \<le> x)"
  by (simp add: sorted_append)

lemma descending_drop_above:
  fixes a :: "'a::linorder"
  shows "sorted (rev xs) \<Longrightarrow> drop (length (filter (\<lambda>c. a < c) xs)) xs = filter (\<lambda>c. c \<le> a) xs"
proof (induction xs)
  case Nil
  show ?case by simp
next
  case (Cons x xs)
  have d: "sorted (rev xs)" "\<forall>y\<in>set xs. y \<le> x"
    using descending_Cons [OF Cons.prems] by simp_all
  show ?case
  proof (cases "a < x")
    case True
    then show ?thesis using Cons.IH d by simp
  next
    case False
    then have "\<forall>y\<in>set xs. y \<le> a"
      using d by auto
    then have "filter (\<lambda>c. a < c) xs = []" "filter (\<lambda>c. c \<le> a) xs = xs"
      by (auto simp add: filter_empty_conv filter_id_conv)
    then show ?thesis using False by simp
  qed
qed

lemma descending_take_downto:
  fixes b :: "'a::linorder"
  shows "sorted (rev xs) \<Longrightarrow> take (length (filter (\<lambda>c. b \<le> c) xs)) xs = filter (\<lambda>c. b \<le> c) xs"
proof (induction xs)
  case Nil
  show ?case by simp
next
  case (Cons x xs)
  have d: "sorted (rev xs)" "\<forall>y\<in>set xs. y \<le> x"
    using descending_Cons [OF Cons.prems] by simp_all
  show ?case
  proof (cases "b \<le> x")
    case True
    then show ?thesis using Cons.IH d by simp
  next
    case False
    then have "\<forall>y\<in>set xs. \<not> b \<le> y"
      using d by auto
    then have "filter (\<lambda>c. b \<le> c) xs = []"
      by (simp add: filter_empty_conv)
    then show ?thesis using False by simp
  qed
qed

lemma descending_filter:
  "sorted (rev xs) \<Longrightarrow> sorted (rev (filter P xs))"
  by (simp add: rev_filter sorted_wrt_filter)

lemma isel_descending:
  fixes a b :: "'a::linorder"
  assumes "sorted (rev xs)"
  shows "isel (length (filter (\<lambda>c. a < c) xs), length (filter (\<lambda>c. b \<le> c) xs)) xs =
         filter (\<lambda>c. b \<le> c \<and> c \<le> a) xs"
proof -
  let ?ys = "filter (\<lambda>c. c \<le> a) xs"
  have s: "sorted (rev ?ys)"
    using assms by (rule descending_filter)
  have "isel (length (filter (\<lambda>c. a < c) xs), length (filter (\<lambda>c. b \<le> c) xs)) xs =
      take (length (filter (\<lambda>c. b \<le> c) xs) - length (filter (\<lambda>c. a < c) xs)) ?ys"
    using descending_drop_above [OF assms, of a] by (simp add: isel_def drop_take)
  also have "\<dots> = take (length (filter (\<lambda>c. b \<le> c) ?ys)) ?ys"
    by (simp add: count_between_desc conj_commute)
  also have "\<dots> = filter (\<lambda>c. b \<le> c) ?ys"
    using s by (rule descending_take_downto)
  finally show ?thesis
    by (simp add: conj_commute)
qed

lemma isel_nth:
  "j < length (isel (lo, hi) xs) \<Longrightarrow> isel (lo, hi) xs ! j = xs ! (lo + j)"
proof -
  assume "j < length (isel (lo, hi) xs)"
  then have j: "lo + j < hi" "lo + j < length xs"
    by (simp_all add: isel_def)
  then have "lo \<le> length (take hi xs)"
    by simp
  then have "drop lo (take hi xs) ! j = take hi xs ! (lo + j)"
    by (rule nth_drop)
  then show ?thesis
    using j by (simp add: isel_def)
qed

lemma isel_length:
  "length (isel (lo, hi) xs) = min hi (length xs) - lo"
  by (simp add: isel_def)

lemma isel_map: "isel se (map f xs) = map f (isel se xs)"
  by (simp add: isel_def take_map drop_map)


section \<open>Lemmas on dropping the labels without data\<close>

lemma map_nth_fun: "map (\<lambda>c. f (xs ! c)) [0 ..< length xs] = map f xs"
proof -
  have "map f (map (\<lambda>c. xs ! c) [0 ..< length xs]) = map f xs"
    by (simp only: map_nth)
  then show ?thesis
    by (simp add: comp_def)
qed

lemma zip_upt:
  "length ts = length vs \<Longrightarrow> zip ts vs = map (\<lambda>i. (ts ! i, vs ! i)) [0 ..< length ts]"
  by (rule nth_equalityI) simp_all

lemma nanmean_cong:
  "filter (\<lambda>p. p \<noteq> None) ps = filter (\<lambda>p. p \<noteq> None) qs \<Longrightarrow> nanmean ps = nanmean qs"
  by (simp add: nanmean_def)

lemma mask_zero_present: "mask_zero v \<noteq> None \<Longrightarrow> ne0 v"
  by (simp add: mask_zero_def split: if_splits)

lemma filter_map_kept:
  assumes "\<forall>c<length xs. P (f (xs ! c)) \<longrightarrow> Q c"
  shows "filter P (map (\<lambda>c. f (xs ! c)) (filter Q [0 ..< length xs])) = filter P (map f xs)"
proof -
  have "filter P (map (\<lambda>c. f (xs ! c)) (filter Q [0 ..< length xs])) =
      map (\<lambda>c. f (xs ! c)) (filter (\<lambda>c. P (f (xs ! c)) \<and> Q c) [0 ..< length xs])"
    by (simp add: filter_map comp_def conj_commute)
  also have "filter (\<lambda>c. P (f (xs ! c)) \<and> Q c) [0 ..< length xs] =
      filter (\<lambda>c. P (f (xs ! c))) [0 ..< length xs]"
    using assms by (intro filter_cong) auto
  also have "map (\<lambda>c. f (xs ! c)) (filter (\<lambda>c. P (f (xs ! c))) [0 ..< length xs]) =
      filter P (map (\<lambda>c. f (xs ! c)) [0 ..< length xs])"
    by (simp add: filter_map comp_def)
  also have "map (\<lambda>c. f (xs ! c)) [0 ..< length xs] = map f xs"
    by (rule map_nth_fun)
  finally show ?thesis .
qed

lemma concat_map_kept:
  "\<forall>r\<in>set l. F r \<noteq> [] \<longrightarrow> Q r \<Longrightarrow> concat (map F (filter Q l)) = concat (map F l)"
  by (induction l) auto

lemma where_drop_image:
  assumes rect: "rectangular d" and img: "img \<in> set (ta_values d)"
  shows "nanmean (concat (map (\<lambda>r. map (\<lambda>c. mask_zero (img ! r ! c))
           (filter (\<lambda>c. list_ex (\<lambda>img. list_ex (\<lambda>row. ne0 (row ! c)) img) (ta_values d))
              [0 ..< length (ta_x d)]))
           (filter (\<lambda>r. list_ex (\<lambda>img. list_ex ne0 (img ! r)) (ta_values d))
              [0 ..< length (ta_y d)]))) =
         mean_excluding (Some 0) (concat img)"
proof -
  let ?P = "\<lambda>p::pixel. p \<noteq> None"
  let ?Qx = "\<lambda>c. list_ex (\<lambda>img. list_ex (\<lambda>row. ne0 (row ! c)) img) (ta_values d)"
  let ?Qy = "\<lambda>r. list_ex (\<lambda>img. list_ex ne0 (img ! r)) (ta_values d)"
  let ?F = "\<lambda>r. filter ?P (map mask_zero (img ! r))"
  have ly: "length img = length (ta_y d)"
    and lx: "\<forall>row\<in>set img. length row = length (ta_x d)"
    using rect img by (simp_all add: rectangular_def list_all_iff)
  have row: "filter ?P (map (\<lambda>c. mask_zero (img ! r ! c)) (filter ?Qx [0 ..< length (ta_x d)])) = ?F r"
    if r: "r < length (ta_y d)" for r
  proof -
    have in_img: "img ! r \<in> set img"
      using r ly by simp
    then have l: "length (img ! r) = length (ta_x d)"
      using lx by simp
    have "\<forall>c<length (img ! r). ?P (mask_zero (img ! r ! c)) \<longrightarrow> ?Qx c"
    proof (intro allI impI)
      fix c assume "c < length (img ! r)" and "?P (mask_zero (img ! r ! c))"
      then have "ne0 (img ! r ! c)"
        using mask_zero_present by blast
      then show "?Qx c"
        using img in_img by (auto simp add: list_ex_iff)
    qed
    then show ?thesis
      using filter_map_kept [of "img ! r" ?P mask_zero ?Qx] by (simp add: l)
  qed
  have "filter ?P (concat (map (\<lambda>r. map (\<lambda>c. mask_zero (img ! r ! c))
           (filter ?Qx [0 ..< length (ta_x d)])) (filter ?Qy [0 ..< length (ta_y d)]))) =
      concat (map (\<lambda>r. filter ?P (map (\<lambda>c. mask_zero (img ! r ! c))
           (filter ?Qx [0 ..< length (ta_x d)]))) (filter ?Qy [0 ..< length (ta_y d)]))"
    by (simp add: filter_concat comp_def)
  also have "\<dots> = concat (map ?F (filter ?Qy [0 ..< length (ta_y d)]))"
    using row by (intro arg_cong [where f = concat] map_cong) auto
  also have "\<dots> = concat (map ?F [0 ..< length (ta_y d)])"
  proof (rule concat_map_kept, intro ballI impI)
    fix r assume r: "r \<in> set [0 ..< length (ta_y d)]" and ne: "?F r \<noteq> []"
    then obtain p where p: "p \<in> set (img ! r)" "mask_zero p \<noteq> None"
      by (auto simp add: filter_empty_conv)
    then have "ne0 p"
      using mask_zero_present by blast
    then show "?Qy r"
      using img p by (auto simp add: list_ex_iff)
  qed
  also have "\<dots> = concat (map (\<lambda>row. filter ?P (map mask_zero row)) img)"
  proof -
    have "map ?F [0 ..< length img] = map (\<lambda>row. filter ?P (map mask_zero row)) img"
      by (rule map_nth_fun)
    then show ?thesis
      by (simp add: ly)
  qed
  also have "\<dots> = filter ?P (map mask_zero (concat img))"
    by (simp add: filter_concat map_concat comp_def)
  finally have "nanmean (concat (map (\<lambda>r. map (\<lambda>c. mask_zero (img ! r ! c))
           (filter ?Qx [0 ..< length (ta_x d)])) (filter ?Qy [0 ..< length (ta_y d)]))) =
      nanmean (map mask_zero (concat img))"
    by (rule nanmean_cong)
  then show ?thesis
    by (simp only: nanmean_mask_zero)
qed

lemma mean_trend_rectangular:
  assumes rect: "rectangular d"
  shows "mean_trend d =
     map (\<lambda>(t, img). (t, mean_excluding (Some 0) (concat img)))
       (filter (\<lambda>(t, img). list_ex (list_ex ne0) img) (zip (ta_time d) (ta_values d)))"
proof -
  let ?n = "length (ta_time d)"
  let ?keep = "filter (\<lambda>i. list_ex (list_ex ne0) (ta_values d ! i)) [0 ..< ?n]"
  let ?G = "\<lambda>img. map (\<lambda>r. map (\<lambda>c. mask_zero (img ! r ! c))
           (filter (\<lambda>c. list_ex (\<lambda>img. list_ex (\<lambda>row. ne0 (row ! c)) img) (ta_values d))
              [0 ..< length (ta_x d)]))
           (filter (\<lambda>r. list_ex (\<lambda>img. list_ex ne0 (img ! r)) (ta_values d))
              [0 ..< length (ta_y d)])"
  have len: "length (ta_values d) = ?n"
    using rect by (simp add: rectangular_def)
  have "mean_trend d =
      map (\<lambda>i. (ta_time d ! i, nanmean (concat (?G (ta_values d ! i))))) ?keep"
    by (simp add: mean_trend_def where_ne0_drop_def Let_def zip_map_map comp_def
        zip_same_conv_map)
  also have "\<dots> = map (\<lambda>i. (ta_time d ! i, mean_excluding (Some 0) (concat (ta_values d ! i)))) ?keep"
  proof (rule map_cong [OF refl])
    fix i assume "i \<in> set ?keep"
    then have "ta_values d ! i \<in> set (ta_values d)"
      using len by simp
    then show "(ta_time d ! i, nanmean (concat (?G (ta_values d ! i)))) =
        (ta_time d ! i, mean_excluding (Some 0) (concat (ta_values d ! i)))"
      using where_drop_image [OF rect] by simp
  qed
  also have "\<dots> = map (\<lambda>(t, img). (t, mean_excluding (Some 0) (concat img)))
       (filter (\<lambda>(t, img). list_ex (list_ex ne0) img) (zip (ta_time d) (ta_values d)))"
    using len by (simp add: zip_upt filter_map comp_def)
  finally show ?thesis .
qed


section \<open>Lemmas on the box selection\<close>

lemma slice_locs_ascending:
  "sorted idx \<Longrightarrow>
   slice_locs start stop idx =
     Inr (length (filter (\<lambda>c. c < start) idx), length (filter (\<lambda>c. c \<le> stop) idx))"
  by (simp add: slice_locs_def)

lemma slice_locs_descending:
  "\<not> sorted idx \<Longrightarrow> sorted (rev idx) \<Longrightarrow>
   slice_locs start stop idx =
     Inr (length (filter (\<lambda>c. start < c) idx), length (filter (\<lambda>c. stop \<le> c) idx))"
  by (simp add: slice_locs_def)

lemma sel_box_cases:
  "sel_box x0 x1 y0 y1 da = Inr d \<Longrightarrow>
   \<exists>xs ys. slice_locs x0 x1 (ta_x da) = Inr xs \<and> slice_locs y0 y1 (ta_y da) = Inr ys \<and>
     d = da \<lparr> ta_y := isel ys (ta_y da), ta_x := isel xs (ta_x da),
               ta_values := map (\<lambda>img. map (isel xs) (isel ys img)) (ta_values da) \<rparr>"
proof -
  assume sel: "sel_box x0 x1 y0 y1 da = Inr d"
  show ?thesis
  proof (cases "slice_locs x0 x1 (ta_x da)")
    case (Inl e)
    then show ?thesis
      using sel by (simp add: sel_box_def)
  next
    case xs: (Inr xs)
    show ?thesis
    proof (cases "slice_locs y0 y1 (ta_y da)")
      case (Inl e)
      then show ?thesis
        using sel xs by (simp add: sel_box_def)
    next
      case ys: (Inr ys)
      have "d = da \<lparr> ta_y := isel ys (ta_y da), ta_x := isel xs (ta_x da),
               ta_values := map (\<lambda>img. map (isel xs) (isel ys img)) (ta_values da) \<rparr>"
        using sel xs ys by (simp add: sel_box_def)
      then show ?thesis
        using xs ys by blast
    qed
  qed
qed

lemma isel_subset: "set (isel se xs) \<subseteq> set xs"
proof -
  have "set (drop (fst se) (take (snd se) xs)) \<subseteq> set (take (snd se) xs)"
    by (rule set_drop_subset)
  also have "\<dots> \<subseteq> set xs"
    by (rule set_take_subset)
  finally show ?thesis
    by (simp add: isel_def)
qed

lemma isel_length_eq:
  "length xs = length ys \<Longrightarrow> length (isel se xs) = length (isel se ys)"
  by (simp add: isel_def)

lemma sel_box_rectangular:
  assumes rect: "rectangular da" and sel: "sel_box x0 x1 y0 y1 da = Inr d"
  shows "rectangular d"
proof -
  obtain xs ys where d: "d = da \<lparr> ta_y := isel ys (ta_y da), ta_x := isel xs (ta_x da),
               ta_values := map (\<lambda>img. map (isel xs) (isel ys img)) (ta_values da) \<rparr>"
    using sel_box_cases [OF sel] by blast
  have f: "ta_time d = ta_time da" "ta_y d = isel ys (ta_y da)" "ta_x d = isel xs (ta_x da)"
    "ta_values d = map (\<lambda>img. map (isel xs) (isel ys img)) (ta_values da)"
    by (simp_all add: d)
  have len: "length (ta_values d) = length (ta_time d)"
    using rect by (simp add: f rectangular_def)
  have "\<forall>img'\<in>set (ta_values d). length img' = length (ta_y d) \<and>
      (\<forall>row'\<in>set img'. length row' = length (ta_x d))"
  proof
    fix img' assume "img' \<in> set (ta_values d)"
    then obtain img where img: "img \<in> set (ta_values da)"
      and img': "img' = map (isel xs) (isel ys img)"
      unfolding f by auto
    have ly: "length img = length (ta_y da)"
      and lx: "\<forall>row\<in>set img. length row = length (ta_x da)"
      using rect img by (simp_all add: rectangular_def list_all_iff)
    have a: "length img' = length (ta_y d)"
      unfolding img' f using isel_length_eq [OF ly, of ys] by simp
    have b: "\<forall>row'\<in>set img'. length row' = length (ta_x d)"
    proof
      fix row' assume "row' \<in> set img'"
      then obtain row where row: "row \<in> set (isel ys img)" and row': "row' = isel xs row"
        unfolding img' by auto
      have "row \<in> set img"
        using row isel_subset [of ys img] by blast
      then have "length row = length (ta_x da)"
        using lx by blast
      then have "length (isel xs row) = length (isel xs (ta_x da))"
        by (rule isel_length_eq)
      then show "length row' = length (ta_x d)"
        unfolding row' f .
    qed
    show "length img' = length (ta_y d) \<and> (\<forall>row'\<in>set img'. length row' = length (ta_x d))"
      using a b by (rule conjI)
  qed
  then show ?thesis
    unfolding rectangular_def list_all_iff using len by blast
qed

lemma sel_box_map_pixels:
  "sel_box x0 x1 y0 y1 (da \<lparr> ta_values := map (map (map f)) (ta_values da) \<rparr>) =
   (case sel_box x0 x1 y0 y1 da of
      Inl e \<Rightarrow> Inl e
    | Inr s \<Rightarrow> Inr (s \<lparr> ta_values := map (map (map f)) (ta_values s) \<rparr>))"
proof (cases "slice_locs x0 x1 (ta_x da)")
  case (Inl e)
  then show ?thesis
    by (simp add: sel_box_def)
next
  case xs: (Inr xs)
  show ?thesis
  proof (cases "slice_locs y0 y1 (ta_y da)")
    case (Inl e)
    then show ?thesis
      using xs by (simp add: sel_box_def)
  next
    case ys: (Inr ys)
    have "map (\<lambda>img. map (isel xs) (isel ys img)) (map (map (map f)) (ta_values da)) =
        map (map (map f)) (map (\<lambda>img. map (isel xs) (isel ys img)) (ta_values da))"
      by (simp add: isel_map comp_def)
    then show ?thesis
      using xs ys by (simp add: sel_box_def)
  qed
qed

lemma sel_box_pixel:
  assumes rect: "rectangular da"
    and xs: "slice_locs x0 x1 (ta_x da) = Inr (xlo, xhi)"
    and ys: "slice_locs y0 y1 (ta_y da) = Inr (ylo, yhi)"
  shows "sel_box x0 x1 y0 y1 da =
      Inr (da \<lparr> ta_y := isel (ylo, yhi) (ta_y da), ta_x := isel (xlo, xhi) (ta_x da),
               ta_values := map (\<lambda>img. map (isel (xlo, xhi)) (isel (ylo, yhi) img)) (ta_values da) \<rparr>)"
    and "t < length (ta_time da) \<Longrightarrow> r < length (isel (ylo, yhi) (ta_y da)) \<Longrightarrow>
         c < length (isel (xlo, xhi) (ta_x da)) \<Longrightarrow>
         map (\<lambda>img. map (isel (xlo, xhi)) (isel (ylo, yhi) img)) (ta_values da) ! t ! r ! c =
           ta_values da ! t ! (ylo + r) ! (xlo + c)"
proof -
  show "sel_box x0 x1 y0 y1 da =
      Inr (da \<lparr> ta_y := isel (ylo, yhi) (ta_y da), ta_x := isel (xlo, xhi) (ta_x da),
               ta_values := map (\<lambda>img. map (isel (xlo, xhi)) (isel (ylo, yhi) img)) (ta_values da) \<rparr>)"
    by (simp add: sel_box_def xs ys)
next
  assume t: "t < length (ta_time da)" and r: "r < length (isel (ylo, yhi) (ta_y da))"
    and c: "c < length (isel (xlo, xhi) (ta_x da))"
  let ?img = "ta_values da ! t"
  have tl: "t < length (ta_values da)"
    using rect t by (simp add: rectangular_def)
  then have img: "?img \<in> set (ta_values da)"
    by simp
  then have ly: "length ?img = length (ta_y da)"
    and lx: "\<forall>row\<in>set ?img. length row = length (ta_x da)"
    using rect by (simp_all add: rectangular_def list_all_iff)
  have r': "r < length (isel (ylo, yhi) ?img)"
    using r isel_length_eq [OF ly, of "(ylo, yhi)"] by simp
  then have row: "isel (ylo, yhi) ?img ! r = ?img ! (ylo + r)"
    by (rule isel_nth)
  have "ylo + r < length ?img"
    using r' by (simp add: isel_def)
  then have "?img ! (ylo + r) \<in> set ?img"
    by simp
  then have "length (?img ! (ylo + r)) = length (ta_x da)"
    using lx by simp
  then have c': "c < length (isel (xlo, xhi) (?img ! (ylo + r)))"
    using c isel_length_eq [of "?img ! (ylo + r)" "ta_x da" "(xlo, xhi)"] by simp
  then have "isel (xlo, xhi) (?img ! (ylo + r)) ! c = ?img ! (ylo + r) ! (xlo + c)"
    by (rule isel_nth)
  then show "map (\<lambda>img. map (isel (xlo, xhi)) (isel (ylo, yhi) img)) (ta_values da) ! t ! r ! c =
           ta_values da ! t ! (ylo + r) ! (xlo + c)"
    using tl r' row by simp
qed


section \<open>Lemmas on the full-resolution composite\<close>

lemma resample_bins_mapped_pixel:
  assumes rect: "rectangular s"
    and i: "i < length (month_bins (map month_of (ta_time s)))"
    and r: "r < length (ta_y s)" and c: "c < length (ta_x s)"
  shows "pa_values (resample_bins month_of (s \<lparr> ta_values := map (map (map f)) (ta_values s) \<rparr>))
           ! i ! r ! c =
     nanmean (map f (map (\<lambda>img. img ! r ! c)
       (layers_in month_of s (month_bins (map month_of (ta_time s)) ! i))))"
proof -
  let ?m = "s \<lparr> ta_values := map (map (map f)) (ta_values s) \<rparr>"
  let ?b = "month_bins (map month_of (ta_time s)) ! i"
  have t: "pa_time (resample_bins month_of ?m) = month_bins (map month_of (ta_time s))"
    by (simp add: resample_bins_fields)
  have l: "layers_in month_of ?m ?b = map (map (map f)) (layers_in month_of s ?b)"
    by (rule layers_in_map)
  have "pa_values (resample_bins month_of ?m) ! i =
      group_mean (length (ta_y s)) (length (ta_x s)) (layers_in month_of ?m ?b)"
    using i resample_bins_nth [of i month_of ?m] by (simp add: t)
  then have "pa_values (resample_bins month_of ?m) ! i ! r ! c =
      nanmean (map (\<lambda>img. img ! r ! c) (map (map (map f)) (layers_in month_of s ?b)))"
    using r c by (simp add: group_mean_nth l)
  also have "\<dots> = nanmean (map f (map (\<lambda>img. img ! r ! c) (layers_in month_of s ?b)))"
    by (simp only: pixel_series_map [OF rect layers_in_subset r c])
  finally show ?thesis .
qed

lemma full_resolution_masked:
  "assign_time (open_rasterio st v) dts = Inr raw \<Longrightarrow>
   full_resolution st v dts =
     Inr (raw \<lparr> ta_values := map (map (map (mask_nodata (st_nodata st)))) (ta_values raw) \<rparr>)"
  by (auto simp add: full_resolution_def assign_time_def open_rasterio_masked_def
      open_rasterio_def Let_def split: if_splits)

lemma full_resolution_mean_pixel:
  assumes raw: "assign_time (open_rasterio st v) dts = Inr raw"
    and rect: "rectangular raw"
    and ne: "ta_time raw \<noteq> []" and mono: "sorted (ta_time raw)"
    and sel: "sel_box 734500 761400 4333600 4306000 raw = Inr s"
    and i: "i < length (month_bins (map month_of (ta_time raw)))"
    and r: "r < length (ta_y s)" and c: "c < length (ta_x s)"
  shows "\<exists>out. full_resolution_mean st v dts month_of = Inr out \<and>
     pa_time out = month_bins (map month_of (ta_time raw)) \<and>
     length (pa_values out) = length (pa_time out) \<and>
     pa_values out ! i ! r ! c =
       mean_excluding (st_nodata st)
         (map (\<lambda>img. img ! r ! c) (layers_in month_of s (pa_time out ! i)))"
proof -
  let ?f = "mask_nodata (st_nodata st)"
  let ?m = "s \<lparr> ta_values := map (map (map ?f)) (ta_values s) \<rparr>"
  let ?out = "resample_bins month_of ?m"
  have rs: "rectangular s"
    using rect sel by (rule sel_box_rectangular)
  have ts: "ta_time s = ta_time raw"
    using sel_box_cases [OF sel] by auto
  have "sel_box 734500 761400 4333600 4306000
        (raw \<lparr> ta_values := map (map (map ?f)) (ta_values raw) \<rparr>) = Inr ?m"
    by (simp add: sel_box_map_pixels sel)
  moreover have "resample_mean month_of ?m = Inr ?out"
    using ne mono by (intro resample_mean_ok) (simp_all add: ts)
  ultimately have out: "full_resolution_mean st v dts month_of = Inr ?out"
    by (simp add: full_resolution_mean_def full_resolution_masked [OF raw] subset_def)
  have t: "pa_time ?out = month_bins (map month_of (ta_time raw))"
    by (simp add: resample_bins_fields ts)
  have l: "length (pa_values ?out) = length (pa_time ?out)"
    by (rule resample_bins_fields)
  have "pa_values ?out ! i ! r ! c =
      nanmean (map ?f (map (\<lambda>img. img ! r ! c)
        (layers_in month_of s (month_bins (map month_of (ta_time s)) ! i))))"
    using rs i r c by (intro resample_bins_mapped_pixel) (simp_all add: ts)
  then have "pa_values ?out ! i ! r ! c =
      mean_excluding (st_nodata st)
        (map (\<lambda>img. img ! r ! c) (layers_in month_of s (pa_time ?out ! i)))"
    by (simp only: nanmean_mask_nodata t ts)
  then show ?thesis
    using out t l by blast
qed

text \<open>
  The full-resolution cell applies no zero mask of its own: on files that declare no
  no-data value a zero enters the mean (the pixel with the values 0, 2 and 4 in January
  has the monthly mean 2).
\<close>

lemma full_resolution_undeclared:
  "assign_time (open_rasterio undeclared_storage example_vrt) example_times = Inr example_raw \<and>
   sel_box 734500 761400 4333600 4306000 example_raw = Inr example_sub \<and>
   pixel_series 0 0 (layers_in month_index example_sub 24240) = [Some 0, Some 2, Some 4] \<and>
   map_sum id pa_values
     (full_resolution_mean undeclared_storage example_vrt example_times month_index) =
     Inr [[[Some 2, Some (7 / 3)], [Some 1, Some 0]]]"
  by code_simp

section \<open>Lemmas on periods without data\<close>

lemma mean_excluding_all_missing:
  "list_all (\<lambda>v. v = None \<or> v = Some 0) ps \<Longrightarrow> mean_excluding (Some 0) ps = None"
proof -
  assume "list_all (\<lambda>v. v = None \<or> v = Some 0) ps"
  then have "filter (\<lambda>v. Some v \<noteq> Some 0) (map the (filter (\<lambda>p. p \<noteq> None) ps)) = []"
    by (induction ps) auto
  then show ?thesis
    by (simp add: mean_excluding_def)
qed

lemma fold_min_le: "fold min xs (m::int) \<le> m \<and> (\<forall>x\<in>set xs. fold min xs m \<le> x)"
proof (induction xs arbitrary: m)
  case Nil
  show ?case by simp
next
  case (Cons x xs)
  have a: "fold min xs (min x m) \<le> min x m"
    and b: "\<forall>y\<in>set xs. fold min xs (min x m) \<le> y"
    using Cons.IH [of "min x m"] by simp_all
  show ?case
    using a b by auto
qed

lemma fold_max_ge: "m \<le> fold max xs (m::int) \<and> (\<forall>x\<in>set xs. x \<le> fold max xs m)"
proof (induction xs arbitrary: m)
  case Nil
  show ?case by simp
next
  case (Cons x xs)
  have a: "max x m \<le> fold max xs (max x m)"
    and b: "\<forall>y\<in>set xs. y \<le> fold max xs (max x m)"
    using Cons.IH [of "max x m"] by simp_all
  show ?case
    using a b by auto
qed

lemma month_bins_cover:
  assumes "a \<in> set ms" and "b \<in> set ms" and "a \<le> m" and "m \<le> b"
  shows "m \<in> set (month_bins ms)"
proof (cases ms)
  case Nil
  then show ?thesis using assms by simp
next
  case (Cons x xs)
  have "fold min xs x \<le> a"
    using assms(1) fold_min_le [of xs x] Cons by auto
  moreover have "b \<le> fold max xs x"
    using assms(2) fold_max_ge [of x xs] Cons by auto
  ultimately show ?thesis
    using assms(3,4) Cons by (simp add: month_bins_def)
qed

lemma pixel_series_all:
  assumes rect: "rectangular da" and sub: "set imgs \<subseteq> set (ta_values da)"
    and r: "r < length (ta_y da)" and c: "c < length (ta_x da)"
    and all: "list_all (list_all (list_all P)) imgs"
  shows "list_all P (pixel_series r c imgs)"
proof -
  have "\<forall>img\<in>set imgs. P (img ! r ! c)"
  proof
    fix img assume i: "img \<in> set imgs"
    then have "img \<in> set (ta_values da)"
      using sub by blast
    then have rr: "r < length img" and cc: "c < length (img ! r)"
      using rectangular_nth [OF rect _ r c] by simp_all
    have "list_all (list_all P) img"
      using all i by (simp add: list_all_iff)
    then have "list_all P (img ! r)"
      using rr by (simp add: list_all_length)
    then show "P (img ! r ! c)"
      using cc by (simp add: list_all_length)
  qed
  then show ?thesis
    by (simp add: pixel_series_def list_all_iff)
qed


section \<open>Lemmas on the bounding box of a region\<close>

lemma daT_north_up:
  assumes asc: "sorted (ta_x da)"
    and desc: "sorted (rev (ta_y da))" and nasc: "\<not> sorted (ta_y da)"
    and bb: "bounds p ps = (minx, miny, maxx, maxy)"
  shows "daT p ps da =
     Inr (da \<lparr> ta_y := isel (length (filter (\<lambda>y. maxy < y) (ta_y da)),
                             length (filter (\<lambda>y. miny \<le> y) (ta_y da))) (ta_y da),
               ta_x := isel (length (filter (\<lambda>x. x < minx) (ta_x da)),
                             length (filter (\<lambda>x. x \<le> maxx) (ta_x da))) (ta_x da),
               ta_values := map (\<lambda>img. map (isel (length (filter (\<lambda>x. x < minx) (ta_x da)),
                                                    length (filter (\<lambda>x. x \<le> maxx) (ta_x da))))
                                   (isel (length (filter (\<lambda>y. maxy < y) (ta_y da)),
                                          length (filter (\<lambda>y. miny \<le> y) (ta_y da))) img))
                              (ta_values da) \<rparr>)"
  by (simp add: daT_def bb sel_box_def slice_locs_ascending [OF asc]
      slice_locs_descending [OF nasc desc])


section \<open>Claims on Catalog Search\<close>

text \<open>
  C1. For every list of object keys that carry an 8-digit date at characters \<open>[-32:-24]\<close>,
  the sort of Catalog Search returns the same keys with their dates in non-decreasing
  order, whatever their alphabetical order or satellite prefix. The three mock keys,
  listed with the dates 20200101, 20200103, 20200102, come out as 20200101, 20200102,
  20200103.
\<close>

theorem sort_keys_chronological:
  "(list_all dated_key ks \<longrightarrow>
      sorted (map (\<lambda>k. date_number (date_key k)) (sort_keys ks)) \<and>
      mset (sort_keys ks) = mset ks) \<and>
   map date_key mock_keys = [''20200101'', ''20200103'', ''20200102''] \<and>
   map date_key (sort_keys mock_keys) = [''20200101'', ''20200102'', ''20200103'']"
proof -
  have "sorted (map date_key (sort_keys ks))"
    by (simp add: sort_keys_def)
  moreover have "list_all dated_key ks \<Longrightarrow> list_all dated_key (sort_keys ks)"
    by (simp add: list_all_iff sort_keys_def)
  ultimately have "list_all dated_key ks \<Longrightarrow>
      sorted (map (\<lambda>k. date_number (date_key k)) (sort_keys ks))"
    using sorted_map_date_number by blast
  moreover have "mset (sort_keys ks) = mset ks"
    by (simp add: sort_keys_def)
  moreover have "map date_key mock_keys = [''20200101'', ''20200103'', ''20200102'']"
    by code_simp
  moreover have "map date_key (sort_keys mock_keys) = [''20200101'', ''20200102'', ''20200103'']"
    by code_simp
  ultimately show ?thesis by blast
qed

theorem sort_keys_chronological_witness:
  "list_all dated_key mock_keys \<and>
   sort mock_keys = [mock_key_b, mock_key_a, mock_key_c] \<and>
   sort_keys mock_keys = [mock_key_a, mock_key_c, mock_key_b] \<and>
   map (\<lambda>k. date_number (date_key k)) (sort_keys mock_keys) = [20200101, 20200102, 20200103] \<and>
   sorted (map (\<lambda>k. date_number (date_key k)) (sort_keys mock_keys))"
proof -
  have h: "list_all dated_key mock_keys"
    by code_simp
  have a: "sort mock_keys = [mock_key_b, mock_key_a, mock_key_c]"
    by code_simp
  have s: "sort_keys mock_keys = [mock_key_a, mock_key_c, mock_key_b]"
    by code_simp
  have v: "map (\<lambda>k. date_number (date_key k)) (sort_keys mock_keys) =
      [20200101, 20200102, 20200103]"
    by code_simp
  show ?thesis
    using h a s v sort_keys_chronological [of mock_keys] by simp
qed

text \<open>
  C3. Filename parsing is positional and fixed-width. For a key that ends in a filename
  built to the documented layout \<open>[SATELLITE]_[DATE]_[TILE ID]_[ORBIT DIRECTION]/[ASSET]\<close>
  with fields of 3, 8, 5, 3 and 13 characters (36 in all), the last 36 characters are that
  filename, and the satellite id, the date and the orbit direction read at \<open>[0:3]\<close>,
  \<open>[4:12]\<close> and \<open>[19:22]\<close> are exactly the fields it was built from. The cell extracts
  these columns for the whole listing: the sorted keys are the listed keys, every column
  has one entry for each key, and at the position of such a key the columns \<open>files\<close>,
  \<open>satellites\<close>, \<open>dates\<close> and \<open>direction\<close> hold its filename and its fields.
\<close>

theorem filename_fields_positional:
  assumes "length sat = 3" and "length date = 8" and "length tile = 5"
    and "length orbit = 3" and "length asset = 13"
  shows "file_of (dir @ scene_filename sat date tile orbit asset) =
           scene_filename sat date tile orbit asset
     \<and> satellite_of (file_of (dir @ scene_filename sat date tile orbit asset)) = sat
     \<and> date_of (file_of (dir @ scene_filename sat date tile orbit asset)) = date
     \<and> direction_of (file_of (dir @ scene_filename sat date tile orbit asset)) = orbit
     \<and> (i < length ks \<and>
          keys (parse_keys ks) ! i = dir @ scene_filename sat date tile orbit asset \<longrightarrow>
            files (parse_keys ks) ! i = scene_filename sat date tile orbit asset \<and>
            satellites (parse_keys ks) ! i = sat \<and>
            dates (parse_keys ks) ! i = date \<and>
            direction (parse_keys ks) ! i = orbit)
     \<and> mset (keys (parse_keys ks)) = mset ks
     \<and> length (files (parse_keys ks)) = length ks
     \<and> length (satellites (parse_keys ks)) = length ks
     \<and> length (dates (parse_keys ks)) = length ks
     \<and> length (direction (parse_keys ks)) = length ks"
proof -
  let ?fn = "scene_filename sat date tile orbit asset"
  have len: "length ?fn = 36"
    using assms by (simp add: scene_filename_def)
  have f: "file_of (dir @ ?fn) = ?fn"
    using len by (simp add: file_of_def py_slice_def slice_bound_def)
  have s: "satellite_of ?fn = sat"
    using assms by (simp add: satellite_of_def scene_filename_def py_slice_def slice_bound_def)
  have d: "date_of ?fn = date"
    using assms by (simp add: date_of_def scene_filename_def py_slice_def slice_bound_def)
  have o: "direction_of ?fn = orbit"
    using assms by (simp add: direction_of_def scene_filename_def py_slice_def slice_bound_def)
  have cols: "files (parse_keys ks) ! i = ?fn \<and> satellites (parse_keys ks) ! i = sat \<and>
      dates (parse_keys ks) ! i = date \<and> direction (parse_keys ks) ! i = orbit"
    if i: "i < length ks" and k: "keys (parse_keys ks) ! i = dir @ ?fn"
  proof -
    have i': "i < length (sort_keys ks)"
      using i by (simp add: parse_keys_fields)
    have k': "sort_keys ks ! i = dir @ ?fn"
      using k by (simp only: parse_keys_fields(1))
    have a: "files (parse_keys ks) ! i = ?fn"
      using i' by (simp add: parse_keys_fields(2) k' f)
    have i'': "i < length (files (parse_keys ks))"
      using i' by (simp add: parse_keys_fields(2))
    have "satellites (parse_keys ks) ! i = satellite_of (files (parse_keys ks) ! i)"
      "dates (parse_keys ks) ! i = date_of (files (parse_keys ks) ! i)"
      "direction (parse_keys ks) ! i = direction_of (files (parse_keys ks) ! i)"
      using i'' by (simp_all only: parse_keys_fields(3,4,5) nth_map)
    then show ?thesis
      using a s d o by simp
  qed
  have m: "mset (keys (parse_keys ks)) = mset ks"
    by (simp add: parse_keys_fields(1) sort_keys_def)
  have l: "length (files (parse_keys ks)) = length ks"
    "length (satellites (parse_keys ks)) = length ks"
    "length (dates (parse_keys ks)) = length ks"
    "length (direction (parse_keys ks)) = length ks"
    by (simp_all add: parse_keys_fields)
  show ?thesis
    unfolding f using s d o cols m l by simp
qed

theorem filename_fields_positional_witness:
  "keys (parse_keys mock_keys) ! 2 = mock_key_b
   \<and> file_of mock_key_b = ''S1A_20200103_12SYJ_ASC/Gamma0_VV.tif''
   \<and> satellite_of (file_of mock_key_b) = ''S1A''
   \<and> date_of (file_of mock_key_b) = ''20200103''
   \<and> direction_of (file_of mock_key_b) = ''ASC''
   \<and> files (parse_keys mock_keys) ! 2 = ''S1A_20200103_12SYJ_ASC/Gamma0_VV.tif''
   \<and> satellites (parse_keys mock_keys) ! 2 = ''S1A''
   \<and> dates (parse_keys mock_keys) ! 2 = ''20200103''
   \<and> direction (parse_keys mock_keys) ! 2 = ''ASC''"
proof -
  have k: "''sentinel-s1-rtc-indigo/tiles/RTC/1/IW/12/S/YJ/2020/'' @
       scene_filename ''S1A'' ''20200103'' ''12SYJ'' ''ASC'' ''Gamma0_VV.tif'' = mock_key_b"
    by (simp add: mock_key_b_def scene_filename_def)
  have f: "scene_filename ''S1A'' ''20200103'' ''12SYJ'' ''ASC'' ''Gamma0_VV.tif'' =
       ''S1A_20200103_12SYJ_ASC/Gamma0_VV.tif''"
    by (simp add: scene_filename_def)
  have p: "keys (parse_keys mock_keys) ! 2 = mock_key_b"
    by code_simp
  have i: "2 < length mock_keys"
    by (simp add: mock_keys_def)
  have t: "file_of (''sentinel-s1-rtc-indigo/tiles/RTC/1/IW/12/S/YJ/2020/'' @
         scene_filename ''S1A'' ''20200103'' ''12SYJ'' ''ASC'' ''Gamma0_VV.tif'') =
       scene_filename ''S1A'' ''20200103'' ''12SYJ'' ''ASC'' ''Gamma0_VV.tif''
     \<and> satellite_of (file_of (''sentinel-s1-rtc-indigo/tiles/RTC/1/IW/12/S/YJ/2020/'' @
         scene_filename ''S1A'' ''20200103'' ''12SYJ'' ''ASC'' ''Gamma0_VV.tif'')) = ''S1A''
     \<and> date_of (file_of (''sentinel-s1-rtc-indigo/tiles/RTC/1/IW/12/S/YJ/2020/'' @
         scene_filename ''S1A'' ''20200103'' ''12SYJ'' ''ASC'' ''Gamma0_VV.tif'')) = ''20200103''
     \<and> direction_of (file_of (''sentinel-s1-rtc-indigo/tiles/RTC/1/IW/12/S/YJ/2020/'' @
         scene_filename ''S1A'' ''20200103'' ''12SYJ'' ''ASC'' ''Gamma0_VV.tif'')) = ''ASC''
     \<and> (2 < length mock_keys \<and>
          keys (parse_keys mock_keys) ! 2 =
            ''sentinel-s1-rtc-indigo/tiles/RTC/1/IW/12/S/YJ/2020/'' @
            scene_filename ''S1A'' ''20200103'' ''12SYJ'' ''ASC'' ''Gamma0_VV.tif'' \<longrightarrow>
            files (parse_keys mock_keys) ! 2 =
              scene_filename ''S1A'' ''20200103'' ''12SYJ'' ''ASC'' ''Gamma0_VV.tif'' \<and>
            satellites (parse_keys mock_keys) ! 2 = ''S1A'' \<and>
            dates (parse_keys mock_keys) ! 2 = ''20200103'' \<and>
            direction (parse_keys mock_keys) ! 2 = ''ASC'')
     \<and> mset (keys (parse_keys mock_keys)) = mset mock_keys
     \<and> length (files (parse_keys mock_keys)) = length mock_keys
     \<and> length (satellites (parse_keys mock_keys)) = length mock_keys
     \<and> length (dates (parse_keys mock_keys)) = length mock_keys
     \<and> length (direction (parse_keys mock_keys)) = length mock_keys"
    by (rule filename_fields_positional) simp_all
  note t' = t [unfolded k]
  note t'' = t' [unfolded f]
  show ?thesis
    using t'' p i by blast
qed

text \<open>
  C9. For every key of at least 36 characters (the fixed-width shape has the 36-character
  filename as its suffix), the sort key read at \<open>[-32:-24]\<close> of the object key is the date
  field read at \<open>[4:12]\<close> of its filename suffix \<open>key[-36:]\<close>: the sort order and the dates
  used for relabeling come from the same substring.
\<close>

theorem date_key_is_file_date:
  "36 \<le> length k \<Longrightarrow> date_key k = date_of (file_of k)"
proof -
  assume len: "36 \<le> length k"
  have "take 12 (drop (length k - 36) k) = drop (length k - 36) (take (length k - 24) k)"
    using len by (simp add: take_drop)
  then have "drop 4 (take 12 (drop (length k - 36) k)) =
      drop (length k - 32) (take (length k - 24) k)"
    using len by simp
  then show ?thesis
    by (simp only: date_key_drop_take file_of_drop date_of_drop_take)
qed

theorem date_key_is_file_date_witness:
  "36 \<le> length mock_key_c \<and> date_key mock_key_c = ''20200102'' \<and>
   date_of (file_of mock_key_c) = ''20200102''"
proof -
  have h: "36 \<le> length mock_key_c"
    by code_simp
  have v: "date_key mock_key_c = ''20200102''"
    by code_simp
  note t = date_key_is_file_date [OF h]
  show ?thesis
    using h v t by metis
qed

text \<open>
  C10. The chronological sort is stable: the keys that carry one and the same date
  substring appear in the sorted output in the relative order of the storage listing.
\<close>

theorem sort_keys_stable:
  "filter (\<lambda>k. date_key k = d) (sort_keys ks) = filter (\<lambda>k. date_key k = d) ks"
  unfolding sort_keys_def by (rule sort_key_stable)

section \<open>Claims on the manifest and on an empty search\<close>

text \<open>
  C8. The manifest written by Mosaic Construction is, for each key in input order, the
  prefix \<open>/vsis3/\<close>, the key and a newline. For every sequence of N object keys (a
  storage path holds no line break) it has exactly N lines, and line i is the prefix
  followed by key i; this holds in particular for the chronologically sorted keys.
\<close>

theorem manifest_lines:
  "write_manifest ks = concat (map manifest_line ks) \<and>
   (list_all (\<lambda>k. newline \<notin> set k) ks \<longrightarrow>
      text_lines (write_manifest ks) = map (\<lambda>k. ''/vsis3/'' @ k) ks \<and>
      length (text_lines (write_manifest ks)) = length ks \<and>
      text_lines (write_manifest (sort_keys ks)) = map (\<lambda>k. ''/vsis3/'' @ k) (sort_keys ks))"
proof -
  have "text_lines (write_manifest ks) = map (\<lambda>k. ''/vsis3/'' @ k) ks \<and>
      length (text_lines (write_manifest ks)) = length ks \<and>
      text_lines (write_manifest (sort_keys ks)) = map (\<lambda>k. ''/vsis3/'' @ k) (sort_keys ks)"
    if h: "list_all (\<lambda>k. newline \<notin> set k) ks"
  proof -
    have "list_all (\<lambda>k. newline \<notin> set k) (sort_keys ks)"
      using h by (simp add: list_all_iff sort_keys_def)
    then show ?thesis
      using h text_lines_manifest [of ks] text_lines_manifest [of "sort_keys ks"] by simp
  qed
  then show ?thesis
    using write_manifest_concat [of ks] by blast
qed

theorem manifest_lines_witness:
  "list_all (\<lambda>k. newline \<notin> set k) mock_keys \<and>
   text_lines (write_manifest (sort_keys mock_keys)) =
     [''/vsis3/'' @ mock_key_a, ''/vsis3/'' @ mock_key_c, ''/vsis3/'' @ mock_key_b]"
proof -
  have h: "list_all (\<lambda>k. newline \<notin> set k) mock_keys"
    by code_simp
  have s: "sort_keys mock_keys = [mock_key_a, mock_key_c, mock_key_b]"
    by code_simp
  show ?thesis
    using h manifest_lines [of mock_keys] by (simp add: s)
qed

text \<open>
  C5. Zero matches is a valid result of Catalog Search: the search returns the empty list,
  and the chronological sort, the field extraction and the manifest writing that follow
  accept it, giving empty lists and an empty manifest; none of these steps has an error
  branch.
\<close>

theorem empty_search_accepted:
  "filter matches listing = [] \<Longrightarrow>
   glob matches listing = [] \<and> length (glob matches listing) = 0 \<and>
   sort_keys (glob matches listing) = [] \<and>
   parse_keys (glob matches listing) =
     \<lparr> keys = [], files = [], satellites = [], dates = [], direction = [] \<rparr> \<and>
   write_manifest (keys (parse_keys (glob matches listing))) = [] \<and>
   text_lines (write_manifest (keys (parse_keys (glob matches listing)))) = []"
  by (simp add: glob_def sort_keys_def parse_keys_def write_manifest_def text_lines_def)

theorem empty_search_accepted_witness:
  "filter (\<lambda>k. False) mock_keys = [] \<and> glob (\<lambda>k. False) mock_keys = [] \<and>
   write_manifest (keys (parse_keys (glob (\<lambda>k. False) mock_keys))) = []"
proof -
  have h: "filter (\<lambda>k. False) mock_keys = []"
    by simp
  note t = empty_search_accepted [OF h]
  show ?thesis
    using h t by blast
qed

section \<open>Claim on the band-to-date correspondence\<close>

text \<open>
  C2. For every mosaic built from N scene references in sorted order (keys without line
  break) and relabelled: N is positive, band i reads key i and is labelled with filename
  i, in input order; the dates are re-derived from those labels at \<open>[4:12]\<close>, so that for
  every i below N the time of layer i is the parsed date of scene i and its pixels are
  those of key i; the band order is not altered. The mosaic is built and relabelled
  whenever the search is not empty, every object opens and every date parses.
\<close>

theorem band_date_correspondence:
  assumes clean: "list_all (\<lambda>k. newline \<notin> set k \<and> carriage_return \<notin> set k) ks"
  shows "(construct_mosaic st (parse_keys ks) = Inr v \<and>
          temporal_relabel st to_datetime v = Inr da \<longrightarrow>
            ks \<noteq> [] \<and>
            vrt_sources v = map (\<lambda>k. ''/vsis3/'' @ k) (keys (parse_keys ks)) \<and>
            vrt_descriptions v = map Some (files (parse_keys ks)) \<and>
            length (ta_time da) = length ks \<and>
            ta_band da = [1 ..< Suc (length ks)] \<and>
            ta_values da = map (st_read st) (vrt_sources v) \<and>
            (\<forall>i<length ks.
               vrt_descriptions v ! i = Some (file_of (keys (parse_keys ks) ! i)) \<and>
               to_datetime (dates (parse_keys ks) ! i) = Inr (ta_time da ! i) \<and>
               ta_values da ! i = st_read st (''/vsis3/'' @ keys (parse_keys ks) ! i))) \<and>
         (ks \<noteq> [] \<and> list_all (\<lambda>k. st_opens st (''/vsis3/'' @ k)) ks \<and>
          list_all (\<lambda>d. \<not> isl (to_datetime d)) (dates (parse_keys ks)) \<longrightarrow>
            (\<exists>w d. construct_mosaic st (parse_keys ks) = Inr w \<and>
                   temporal_relabel st to_datetime w = Inr d))"
proof -
  let ?tbl = "parse_keys ks"
  have lk: "length (keys ?tbl) = length ks" and lf: "length (files ?tbl) = length ks"
    by (simp_all add: parse_keys_fields)
  have ck: "list_all (\<lambda>k. newline \<notin> set k \<and> carriage_return \<notin> set k) (keys ?tbl)"
    using clean by (simp add: list_all_iff parse_keys_fields(1) sort_keys_def)
  have first: "ks \<noteq> [] \<and>
            vrt_sources v = map (\<lambda>k. ''/vsis3/'' @ k) (keys ?tbl) \<and>
            vrt_descriptions v = map Some (files ?tbl) \<and>
            length (ta_time da) = length ks \<and>
            ta_band da = [1 ..< Suc (length ks)] \<and>
            ta_values da = map (st_read st) (vrt_sources v) \<and>
            (\<forall>i<length ks.
               vrt_descriptions v ! i = Some (file_of (keys ?tbl ! i)) \<and>
               to_datetime (dates ?tbl ! i) = Inr (ta_time da ! i) \<and>
               ta_values da ! i = st_read st (''/vsis3/'' @ keys ?tbl ! i))"
    if built: "construct_mosaic st ?tbl = Inr v"
      and rel: "temporal_relabel st to_datetime v = Inr da"
  proof -
    have src: "vrt_sources v = map (\<lambda>k. ''/vsis3/'' @ k) (keys ?tbl)"
      and dsc: "vrt_descriptions v = map Some (files ?tbl)"
      and kne: "keys ?tbl \<noteq> []"
      using construct_mosaic_Inr [OF ck _ built] lk lf by simp_all
    have ne: "ks \<noteq> []"
      using kne lk by auto
    have lt: "length (ta_time da) = length ks"
      and dt: "\<forall>i<length (files ?tbl). to_datetime (date_of (files ?tbl ! i)) = Inr (ta_time da ! i)"
      and bd: "ta_band da = [1 ..< Suc (length (vrt_sources v))]"
      and vl: "ta_values da = map (st_read st) (vrt_sources v)"
      using temporal_relabel_Inr [OF dsc rel] lf by simp_all
    have b: "ta_band da = [1 ..< Suc (length ks)]"
      using bd by (simp only: src length_map lk)
    have "\<forall>i<length ks.
               vrt_descriptions v ! i = Some (file_of (keys ?tbl ! i)) \<and>
               to_datetime (dates ?tbl ! i) = Inr (ta_time da ! i) \<and>
               ta_values da ! i = st_read st (''/vsis3/'' @ keys ?tbl ! i)"
    proof (intro allI impI)
      fix i assume i: "i < length ks"
      have a: "vrt_descriptions v ! i = Some (file_of (keys ?tbl ! i))"
        using i by (simp add: dsc parse_keys_fields)
      have "dates ?tbl ! i = date_of (files ?tbl ! i)"
        using i lf by (simp add: parse_keys_fields(4))
      then have c: "to_datetime (dates ?tbl ! i) = Inr (ta_time da ! i)"
        using dt i lf by simp
      have e: "ta_values da ! i = st_read st (''/vsis3/'' @ keys ?tbl ! i)"
        using i lk by (simp add: vl src)
      show "vrt_descriptions v ! i = Some (file_of (keys ?tbl ! i)) \<and>
               to_datetime (dates ?tbl ! i) = Inr (ta_time da ! i) \<and>
               ta_values da ! i = st_read st (''/vsis3/'' @ keys ?tbl ! i)"
        using a c e by blast
    qed
    then show ?thesis
      using ne src dsc lt b vl by blast
  qed
  have second: "\<exists>w d. construct_mosaic st ?tbl = Inr w \<and> temporal_relabel st to_datetime w = Inr d"
    if ne: "ks \<noteq> []"
      and opens: "list_all (\<lambda>k. st_opens st (''/vsis3/'' @ k)) ks"
      and parses: "list_all (\<lambda>d. \<not> isl (to_datetime d)) (dates ?tbl)"
  proof -
    let ?w = "\<lparr> vrt_sources = map (\<lambda>k. ''/vsis3/'' @ k) (keys ?tbl),
        vrt_descriptions = map Some (files ?tbl) \<rparr>"
    have kne: "keys ?tbl \<noteq> []"
      using ne lk by auto
    have ok: "list_all (\<lambda>k. st_opens st (''/vsis3/'' @ k)) (keys ?tbl)"
      using opens by (simp add: list_all_iff parse_keys_fields(1) sort_keys_def)
    have cm: "construct_mosaic st ?tbl = Inr ?w"
      using ck kne ok by (rule construct_mosaic_built) (simp add: lk lf)
    have "list_all (\<lambda>x. to_datetime (date_of x) = Inr (projr (to_datetime (date_of x)))) (files ?tbl)"
      using parses by (auto simp add: parse_keys_fields(4) list_all_iff)
    then have "\<exists>d. temporal_relabel st to_datetime ?w = Inr d"
      using temporal_relabel_described [of ?w "files ?tbl" to_datetime
          "\<lambda>d. projr (to_datetime d)" st] lk lf
      by simp
    then show ?thesis
      using cm by blast
  qed
  show ?thesis
    using first second by blast
qed

theorem band_date_correspondence_witness:
  "list_all (\<lambda>k. newline \<notin> set k \<and> carriage_return \<notin> set k) mock_keys \<and>
   construct_mosaic mock_storage (parse_keys mock_keys) = Inr example_vrt \<and>
   temporal_relabel mock_storage mock_to_datetime example_vrt = Inr mock_relabelled \<and>
   keys (parse_keys mock_keys) ! 2 = mock_key_b \<and>
   vrt_descriptions example_vrt ! 2 = Some (file_of mock_key_b) \<and>
   mock_to_datetime (dates (parse_keys mock_keys) ! 2) = Inr (ta_time mock_relabelled ! 2) \<and>
   ta_time mock_relabelled ! 2 = 20200103 \<and>
   ta_values mock_relabelled ! 2 = st_read mock_storage (''/vsis3/'' @ mock_key_b) \<and>
   list_all (\<lambda>k. st_opens mock_storage (''/vsis3/'' @ k)) mock_keys \<and>
   list_all (\<lambda>d. \<not> isl (mock_to_datetime d)) (dates (parse_keys mock_keys))"
proof -
  have h1: "list_all (\<lambda>k. newline \<notin> set k \<and> carriage_return \<notin> set k) mock_keys"
    by code_simp
  have h2: "construct_mosaic mock_storage (parse_keys mock_keys) = Inr example_vrt"
    by code_simp
  have h3: "temporal_relabel mock_storage mock_to_datetime example_vrt = Inr mock_relabelled"
    by code_simp
  have h4: "list_all (\<lambda>k. st_opens mock_storage (''/vsis3/'' @ k)) mock_keys"
    by code_simp
  have h5: "list_all (\<lambda>d. \<not> isl (mock_to_datetime d)) (dates (parse_keys mock_keys))"
    by code_simp
  have k: "keys (parse_keys mock_keys) ! 2 = mock_key_b"
    by code_simp
  have t: "ta_time mock_relabelled ! 2 = 20200103"
    by code_simp
  have l: "length mock_keys = 3"
    by (simp add: mock_keys_def)
  note inst = band_date_correspondence [OF h1, of mock_storage example_vrt mock_to_datetime
      mock_relabelled]
  have "\<forall>i<length mock_keys.
      vrt_descriptions example_vrt ! i = Some (file_of (keys (parse_keys mock_keys) ! i)) \<and>
      mock_to_datetime (dates (parse_keys mock_keys) ! i) = Inr (ta_time mock_relabelled ! i) \<and>
      ta_values mock_relabelled ! i =
        st_read mock_storage (''/vsis3/'' @ keys (parse_keys mock_keys) ! i)"
    using inst h2 h3 by blast
  then have "vrt_descriptions example_vrt ! 2 = Some (file_of (keys (parse_keys mock_keys) ! 2)) \<and>
      mock_to_datetime (dates (parse_keys mock_keys) ! 2) = Inr (ta_time mock_relabelled ! 2) \<and>
      ta_values mock_relabelled ! 2 =
        st_read mock_storage (''/vsis3/'' @ keys (parse_keys mock_keys) ! 2)"
    using l by simp
  then show ?thesis
    unfolding k using h1 h2 h3 h4 h5 k t by blast
qed


section \<open>Claims on Aggregation\<close>

text \<open>
  C4. Aggregation masks out the no-data sentinel zero before reducing, in both monthly-mean
  workflows. On a raster with a non-empty time axis in chronological order, the
  low-resolution composite is produced, with one layer for each month, and every pixel of
  every layer is the mean of the values of that pixel, in the layers of that month, that
  are present and different from zero: \<open>da.where(da!=0)\<close> makes the zeros missing and the
  mean skips them. The full-resolution composite of the subset is produced and has the
  same property where zero is the no-data value that the files declare: there the raster
  is opened with \<open>masked=True\<close>, which makes the declared no-data pixels missing.
\<close>

theorem monthly_mean_masking:
  "(rectangular da \<and> ta_time da \<noteq> [] \<and> sorted (ta_time da) \<and>
      i < length (month_bins (map month_of (ta_time da))) \<and>
      r < length (ta_y da) \<and> c < length (ta_x da) \<longrightarrow>
    (\<exists>out. mosaic_mean month_of da = Inr out \<and>
       pa_time out = month_bins (map month_of (ta_time da)) \<and>
       length (pa_values out) = length (pa_time out) \<and>
       pa_values out ! i ! r ! c =
         mean_excluding (Some 0)
           (pixel_series r c (layers_in month_of da (pa_time out ! i))))) \<and>
   (assign_time (open_rasterio st v) dts = Inr raw \<and> st_nodata st = Some 0 \<and>
      rectangular raw \<and> ta_time raw \<noteq> [] \<and> sorted (ta_time raw) \<and>
      sel_box 734500 761400 4333600 4306000 raw = Inr s \<and>
      j < length (month_bins (map calendar (ta_time raw))) \<and>
      y < length (ta_y s) \<and> x < length (ta_x s) \<longrightarrow>
    (\<exists>out. full_resolution_mean st v dts calendar = Inr out \<and>
       pa_time out = month_bins (map calendar (ta_time raw)) \<and>
       length (pa_values out) = length (pa_time out) \<and>
       pa_values out ! j ! y ! x =
         mean_excluding (Some 0)
           (pixel_series y x (layers_in calendar s (pa_time out ! j)))))"
proof -
  have low: "\<exists>out. mosaic_mean month_of da = Inr out \<and>
       pa_time out = month_bins (map month_of (ta_time da)) \<and>
       length (pa_values out) = length (pa_time out) \<and>
       pa_values out ! i ! r ! c =
         mean_excluding (Some 0)
           (pixel_series r c (layers_in month_of da (pa_time out ! i)))"
    if rect: "rectangular da" and ne: "ta_time da \<noteq> []" and mono: "sorted (ta_time da)"
      and i: "i < length (month_bins (map month_of (ta_time da)))"
      and r: "r < length (ta_y da)" and c: "c < length (ta_x da)"
  proof -
    let ?out = "resample_bins month_of (where_ne0 da)"
    have o: "mosaic_mean month_of da = Inr ?out"
      using ne mono by (rule mosaic_mean_ok)
    have t: "pa_time ?out = month_bins (map month_of (ta_time da))"
      by (simp add: resample_bins_fields where_ne0_def)
    have l: "length (pa_values ?out) = length (pa_time ?out)"
      by (rule resample_bins_fields)
    have i': "i < length (pa_time ?out)"
      using i by (simp only: t)
    have "pa_values ?out ! i ! r ! c =
         mean_excluding (Some 0)
           (pixel_series r c (layers_in month_of da (pa_time ?out ! i)))"
      unfolding pixel_series_def using rect i' r c by (rule masked_bins_pixel)
    then show ?thesis
      using o t l by blast
  qed
  have full: "\<exists>out. full_resolution_mean st v dts calendar = Inr out \<and>
       pa_time out = month_bins (map calendar (ta_time raw)) \<and>
       length (pa_values out) = length (pa_time out) \<and>
       pa_values out ! j ! y ! x =
         mean_excluding (Some 0)
           (pixel_series y x (layers_in calendar s (pa_time out ! j)))"
    if "assign_time (open_rasterio st v) dts = Inr raw" and nd: "st_nodata st = Some 0"
      and "rectangular raw" and "ta_time raw \<noteq> []" and "sorted (ta_time raw)"
      and "sel_box 734500 761400 4333600 4306000 raw = Inr s"
      and "j < length (month_bins (map calendar (ta_time raw)))"
      and "y < length (ta_y s)" and "x < length (ta_x s)"
    using full_resolution_mean_pixel [OF that(1,3,4,5,6,7,8,9)]
    unfolding pixel_series_def nd .
  show ?thesis
    using low full by blast
qed

theorem monthly_mean_masking_witness:
  "rectangular example_da \<and> ta_time example_da \<noteq> [] \<and> sorted (ta_time example_da) \<and>
   month_bins (map month_index (ta_time example_da)) = [24240, 24241, 24242] \<and>
   pixel_series 0 2 (layers_in month_index example_da 24240) = [Some 4, Some 0] \<and>
   (\<exists>out. mosaic_mean month_index example_da = Inr out \<and> pa_values out ! 0 ! 0 ! 2 = Some 4) \<and>
   assign_time (open_rasterio declared_storage example_vrt) example_times = Inr example_raw \<and>
   st_nodata declared_storage = Some 0 \<and>
   rectangular example_raw \<and> ta_time example_raw \<noteq> [] \<and> sorted (ta_time example_raw) \<and>
   sel_box 734500 761400 4333600 4306000 example_raw = Inr example_sub \<and>
   pixel_series 0 0 (layers_in month_index example_sub 24240) = [Some 0, Some 2, Some 4] \<and>
   (\<exists>out. full_resolution_mean declared_storage example_vrt example_times month_index = Inr out \<and>
      pa_time out = [24240] \<and> pa_values out ! 0 ! 0 ! 0 = Some 3)"
proof -
  have h1: "rectangular example_da"
    by code_simp
  have n1: "ta_time example_da \<noteq> []"
    by code_simp
  have s1: "sorted (ta_time example_da)"
    by code_simp
  have t1: "month_bins (map month_index (ta_time example_da)) = [24240, 24241, 24242]"
    by code_simp
  have p1: "pixel_series 0 2 (layers_in month_index example_da 24240) = [Some 4, Some 0]"
    by code_simp
  have m1: "mean_excluding (Some 0) [Some 4, Some 0] = Some 4"
    by code_simp
  have h2: "assign_time (open_rasterio declared_storage example_vrt) example_times = Inr example_raw"
    by code_simp
  have nd: "st_nodata declared_storage = Some 0"
    by code_simp
  have h3: "rectangular example_raw"
    by code_simp
  have n2: "ta_time example_raw \<noteq> []"
    by code_simp
  have s2: "sorted (ta_time example_raw)"
    by code_simp
  have h4: "sel_box 734500 761400 4333600 4306000 example_raw = Inr example_sub"
    by code_simp
  have t2: "month_bins (map month_index (ta_time example_raw)) = [24240]"
    by code_simp
  have l2: "length (ta_y example_sub) = 2" "length (ta_x example_sub) = 2"
    by (simp_all add: example_sub_def)
  have l1: "length (ta_y example_da) = 3" "length (ta_x example_da) = 3"
    by (simp_all add: example_da_def)
  have p2: "pixel_series 0 0 (layers_in month_index example_sub 24240) = [Some 0, Some 2, Some 4]"
    by code_simp
  have m2: "mean_excluding (Some 0) [Some 0, Some 2, Some 4] = Some 3"
    by code_simp
  note inst = monthly_mean_masking [where da = example_da and i = 0 and month_of = month_index
      and r = 0 and c = 2 and st = declared_storage and v = example_vrt and dts = example_times
      and raw = example_raw and s = example_sub and j = 0 and calendar = month_index
      and y = 0 and x = 0]
  have "\<exists>out. mosaic_mean month_index example_da = Inr out \<and>
      pa_time out = [24240, 24241, 24242] \<and>
      pa_values out ! 0 ! 0 ! 2 =
        mean_excluding (Some 0) (pixel_series 0 2 (layers_in month_index example_da (pa_time out ! 0)))"
    using inst h1 n1 s1 by (auto simp add: t1 l1)
  then have low: "\<exists>out. mosaic_mean month_index example_da = Inr out \<and>
      pa_values out ! 0 ! 0 ! 2 = Some 4"
    using p1 m1 by auto
  have "\<exists>out. full_resolution_mean declared_storage example_vrt example_times month_index = Inr out \<and>
      pa_time out = [24240] \<and>
      pa_values out ! 0 ! 0 ! 0 =
        mean_excluding (Some 0)
          (pixel_series 0 0 (layers_in month_index example_sub (pa_time out ! 0)))"
    using inst h2 nd h3 n2 s2 h4 by (auto simp add: t2 l2)
  then have full: "\<exists>out. full_resolution_mean declared_storage example_vrt example_times month_index = Inr out \<and>
      pa_time out = [24240] \<and> pa_values out ! 0 ! 0 ! 0 = Some 3"
    using p2 m2 by auto
  show ?thesis
    using h1 n1 s1 t1 p1 low h2 nd h3 n2 s2 h4 p2 full by blast
qed


text \<open>
  C6. A resampling period without valid observation gives an all-missing layer and no
  error. On a raster with a non-empty time axis in chronological order the monthly mean
  is produced; when every pixel of every layer of a month is zero or missing (in
  particular when the month has no layer at all), the layer of that month is missing
  everywhere. The composite has one layer for each period, and every month between the
  months of two timestamps is a period.
\<close>

theorem empty_period_all_missing:
  assumes rect: "rectangular da"
    and ne: "ta_time da \<noteq> []" and mono: "sorted (ta_time da)"
    and i: "i < length (month_bins (map month_of (ta_time da)))"
    and none: "list_all (list_all (list_all (\<lambda>v. v = None \<or> v = Some 0)))
        (layers_in month_of da (month_bins (map month_of (ta_time da)) ! i))"
  shows "\<exists>out. mosaic_mean month_of da = Inr out \<and>
     pa_time out = month_bins (map month_of (ta_time da)) \<and>
     length (pa_values out) = length (pa_time out) \<and>
     pa_values out ! i = replicate (length (ta_y da)) (replicate (length (ta_x da)) None) \<and>
     (\<forall>t\<in>set (ta_time da). \<forall>u\<in>set (ta_time da). \<forall>m.
        month_of t \<le> m \<and> m \<le> month_of u \<longrightarrow> m \<in> set (pa_time out))"
proof -
  let ?out = "resample_bins month_of (where_ne0 da)"
  let ?b = "pa_time ?out ! i"
  let ?ny = "length (ta_y da)" and ?nx = "length (ta_x da)"
  have o: "mosaic_mean month_of da = Inr ?out"
    using ne mono by (rule mosaic_mean_ok)
  have t: "pa_time ?out = month_bins (map month_of (ta_time da))"
    by (simp add: resample_bins_fields where_ne0_def)
  have len: "length (pa_values ?out) = length (pa_time ?out)"
    by (rule resample_bins_fields)
  have i': "i < length (pa_time ?out)"
    using i by (simp only: t)
  have none': "list_all (list_all (list_all (\<lambda>v. v = None \<or> v = Some 0)))
        (layers_in month_of da ?b)"
    using none by (simp only: t)
  have px: "pa_values ?out ! i ! r ! c = None" if "r < ?ny" and "c < ?nx" for r c
  proof -
    have "list_all (\<lambda>v. v = None \<or> v = Some 0) (pixel_series r c (layers_in month_of da ?b))"
      using rect layers_in_subset that none' by (rule pixel_series_all)
    then have "mean_excluding (Some 0) (pixel_series r c (layers_in month_of da ?b)) = None"
      by (rule mean_excluding_all_missing)
    then show ?thesis
      using masked_bins_pixel [OF rect i' that] by (simp add: pixel_series_def)
  qed
  have shape: "pa_values ?out ! i = group_mean ?ny ?nx (layers_in month_of (where_ne0 da) ?b)"
    using i' resample_bins_nth [of i month_of "where_ne0 da"]
    by (simp add: where_ne0_def)
  have "pa_values ?out ! i = replicate ?ny (replicate ?nx None)"
  proof (rule nth_equalityI)
    show "length (pa_values ?out ! i) = length (replicate ?ny (replicate ?nx None))"
      by (simp add: shape group_mean_def)
  next
    fix r assume "r < length (pa_values ?out ! i)"
    then have r: "r < ?ny"
      by (simp add: shape group_mean_def)
    have "pa_values ?out ! i ! r = replicate ?nx None"
    proof (rule nth_equalityI)
      show "length (pa_values ?out ! i ! r) = length (replicate ?nx None)"
        using r by (simp add: shape group_mean_def)
    next
      fix c assume "c < length (pa_values ?out ! i ! r)"
      then have c: "c < ?nx"
        using r by (simp add: shape group_mean_def)
      show "pa_values ?out ! i ! r ! c = replicate ?nx None ! c"
        using px [OF r c] c by simp
    qed
    then show "pa_values ?out ! i ! r = replicate ?ny (replicate ?nx None) ! r"
      using r by simp
  qed
  moreover have "\<forall>t\<in>set (ta_time da). \<forall>u\<in>set (ta_time da). \<forall>m.
        month_of t \<le> m \<and> m \<le> month_of u \<longrightarrow> m \<in> set (pa_time ?out)"
    unfolding t using month_bins_cover [of _ "map month_of (ta_time da)"] by auto
  ultimately show ?thesis
    using o t len by blast
qed

theorem empty_period_all_missing_witness:
  "rectangular example_gap \<and> ta_time example_gap \<noteq> [] \<and> sorted (ta_time example_gap) \<and>
   month_bins (map month_index (ta_time example_gap)) = [24240, 24241, 24242] \<and>
   layers_in month_index example_gap 24241 = [] \<and>
   layers_in month_index example_gap 24242 = [[[Some 0, Some 0], [None, Some 0]]] \<and>
   (\<exists>out. mosaic_mean month_index example_gap = Inr out \<and>
      pa_values out ! 2 = [[None, None], [None, None]]) \<and>
   map_sum id pa_values (mosaic_mean month_index example_gap) =
     Inr [[[Some 2, None], [None, Some 6]],
          [[None, None], [None, None]],
          [[None, None], [None, None]]]"
proof -
  have h1: "rectangular example_gap"
    by code_simp
  have n1: "ta_time example_gap \<noteq> []"
    by code_simp
  have s1: "sorted (ta_time example_gap)"
    by code_simp
  have t1: "month_bins (map month_index (ta_time example_gap)) = [24240, 24241, 24242]"
    by code_simp
  have l1: "layers_in month_index example_gap 24241 = []"
    by code_simp
  have l2: "layers_in month_index example_gap 24242 = [[[Some 0, Some 0], [None, Some 0]]]"
    by code_simp
  have h2: "2 < length (month_bins (map month_index (ta_time example_gap)))"
    by (simp add: t1)
  have h3: "list_all (list_all (list_all (\<lambda>v. v = None \<or> v = Some 0)))
        (layers_in month_index example_gap
           (month_bins (map month_index (ta_time example_gap)) ! 2))"
    by (simp add: t1 l2)
  have n: "replicate (length (ta_y example_gap)) (replicate (length (ta_x example_gap)) None) =
      [[None, None], [None :: pixel, None]]"
    by code_simp
  have all: "map_sum id pa_values (mosaic_mean month_index example_gap) =
     Inr [[[Some 2, None], [None, Some 6]],
          [[None, None], [None, None]],
          [[None, None], [None, None]]]"
    by code_simp
  have "\<exists>out. mosaic_mean month_index example_gap = Inr out \<and>
      pa_values out ! 2 = [[None, None], [None, None]]"
    using empty_period_all_missing [OF h1 n1 s1 h2 h3] by (auto simp add: n)
  then show ?thesis
    using h1 n1 s1 t1 l1 l2 all by blast
qed


section \<open>Claim on Spatial and Temporal Extraction\<close>

text \<open>
  C7. For a north-up raster (\<open>x\<close> labels ascending, \<open>y\<close> labels descending)
  and a region, the extraction returns the axis-aligned slice over the region's bounding
  box: the labels kept are exactly those inside the box, every pixel of the slice is the
  pixel of the raster at those labels, and the region enters only through its bounds, so
  that pixels inside the box and outside the polygon are included. The derived time
  series has one scalar for each timestamp at which the slice has at least one pixel
  different from zero, equal to the mean of the pixels of the slice at that timestamp that
  are present and different from zero; a timestamp at which the whole slice is zero is
  dropped from the series (\<open>drop=True\<close>).
\<close>

theorem bounding_box_extraction:
  assumes rect: "rectangular da"
    and asc: "sorted (ta_x da)"
    and desc: "sorted (rev (ta_y da))" and nasc: "\<not> sorted (ta_y da)"
    and bb: "bounds p ps = (minx, miny, maxx, maxy)"
  shows "\<exists>d. daT p ps da = Inr d \<and>
     ta_time d = ta_time da \<and>
     ta_x d = filter (\<lambda>x. minx \<le> x \<and> x \<le> maxx) (ta_x da) \<and>
     ta_y d = filter (\<lambda>y. miny \<le> y \<and> y \<le> maxy) (ta_y da) \<and>
     (\<forall>t<length (ta_time da). \<forall>r<length (ta_y d). \<forall>c<length (ta_x d).
        ta_y d ! r = ta_y da ! (length (filter (\<lambda>y. maxy < y) (ta_y da)) + r) \<and>
        ta_x d ! c = ta_x da ! (length (filter (\<lambda>x. x < minx) (ta_x da)) + c) \<and>
        ta_values d ! t ! r ! c =
          ta_values da ! t ! (length (filter (\<lambda>y. maxy < y) (ta_y da)) + r)
                           ! (length (filter (\<lambda>x. x < minx) (ta_x da)) + c)) \<and>
     region_mean_trend p ps da =
       Inr (map (\<lambda>(t, img). (t, mean_excluding (Some 0) (concat img)))
              (filter (\<lambda>(t, img). list_ex (list_ex ne0) img) (zip (ta_time d) (ta_values d))))"
proof -
  let ?ylo = "length (filter (\<lambda>y. maxy < y) (ta_y da))"
  let ?yhi = "length (filter (\<lambda>y. miny \<le> y) (ta_y da))"
  let ?xlo = "length (filter (\<lambda>x. x < minx) (ta_x da))"
  let ?xhi = "length (filter (\<lambda>x. x \<le> maxx) (ta_x da))"
  let ?d = "da \<lparr> ta_y := isel (?ylo, ?yhi) (ta_y da), ta_x := isel (?xlo, ?xhi) (ta_x da),
      ta_values := map (\<lambda>img. map (isel (?xlo, ?xhi)) (isel (?ylo, ?yhi) img)) (ta_values da) \<rparr>"
  have d: "daT p ps da = Inr ?d"
    using asc desc nasc bb by (rule daT_north_up)
  have sx: "slice_locs minx maxx (ta_x da) = Inr (?xlo, ?xhi)"
    using asc by (rule slice_locs_ascending)
  have sy: "slice_locs maxy miny (ta_y da) = Inr (?ylo, ?yhi)"
    using nasc desc by (rule slice_locs_descending)
  have sel: "sel_box minx maxx maxy miny da = Inr ?d"
    using sel_box_pixel(1) [OF rect sx sy] .
  have rd: "rectangular ?d"
    using rect sel by (rule sel_box_rectangular)
  have tx: "ta_x ?d = filter (\<lambda>x. minx \<le> x \<and> x \<le> maxx) (ta_x da)"
    using isel_ascending [OF asc, of minx maxx] by simp
  have ty: "ta_y ?d = filter (\<lambda>y. miny \<le> y \<and> y \<le> maxy) (ta_y da)"
    using isel_descending [OF desc, of maxy miny] by simp
  have px: "\<forall>t<length (ta_time da). \<forall>r<length (ta_y ?d). \<forall>c<length (ta_x ?d).
        ta_y ?d ! r = ta_y da ! (?ylo + r) \<and>
        ta_x ?d ! c = ta_x da ! (?xlo + c) \<and>
        ta_values ?d ! t ! r ! c = ta_values da ! t ! (?ylo + r) ! (?xlo + c)"
  proof (intro allI impI)
    fix t r c
    assume t: "t < length (ta_time da)" and r: "r < length (ta_y ?d)" and c: "c < length (ta_x ?d)"
    have r': "r < length (isel (?ylo, ?yhi) (ta_y da))" and c': "c < length (isel (?xlo, ?xhi) (ta_x da))"
      using r c by simp_all
    have "ta_y ?d ! r = ta_y da ! (?ylo + r)"
      using isel_nth [OF r'] by simp
    moreover have "ta_x ?d ! c = ta_x da ! (?xlo + c)"
      using isel_nth [OF c'] by simp
    moreover have "ta_values ?d ! t ! r ! c = ta_values da ! t ! (?ylo + r) ! (?xlo + c)"
      using sel_box_pixel(2) [OF rect sx sy t r' c'] by simp
    ultimately show "ta_y ?d ! r = ta_y da ! (?ylo + r) \<and>
        ta_x ?d ! c = ta_x da ! (?xlo + c) \<and>
        ta_values ?d ! t ! r ! c = ta_values da ! t ! (?ylo + r) ! (?xlo + c)"
      by blast
  qed
  have mt: "region_mean_trend p ps da =
       Inr (map (\<lambda>(t, img). (t, mean_excluding (Some 0) (concat img)))
              (filter (\<lambda>(t, img). list_ex (list_ex ne0) img) (zip (ta_time ?d) (ta_values ?d))))"
    using mean_trend_rectangular [OF rd] by (simp add: region_mean_trend_def d)
  have tt: "ta_time ?d = ta_time da"
    by simp
  show ?thesis
    using d tt tx ty px mt by (intro exI [of _ ?d] conjI)
qed


theorem bounding_box_extraction_witness:
  "rectangular example_da \<and> sorted (ta_x example_da) \<and> sorted (rev (ta_y example_da)) \<and>
   \<not> sorted (ta_y example_da) \<and>
   bounds example_vertex example_vertices = (739000, 4315000, 752000, 4331000) \<and>
   (\<exists>d. daT example_vertex example_vertices example_da = Inr d \<and>
      ta_x d = [740000, 750000] \<and> ta_y d = [4330000, 4320000]) \<and>
   region_mean_trend example_vertex example_vertices example_da =
     Inr [(20200105, Some 3), (20200117, Some 4)]"
proof -
  have h1: "rectangular example_da"
    by code_simp
  have h2: "sorted (ta_x example_da)"
    by code_simp
  have h3: "sorted (rev (ta_y example_da))"
    by code_simp
  have h4: "\<not> sorted (ta_y example_da)"
    by code_simp
  have h5: "bounds example_vertex example_vertices = (739000, 4315000, 752000, 4331000)"
    by code_simp
  have fx: "filter (\<lambda>x. 739000 \<le> x \<and> x \<le> 752000) (ta_x example_da) = [740000, 750000]"
    by code_simp
  have fy: "filter (\<lambda>y. 4315000 \<le> y \<and> y \<le> 4331000) (ta_y example_da) = [4330000, 4320000]"
    by code_simp
  have m: "region_mean_trend example_vertex example_vertices example_da =
      Inr [(20200105, Some 3), (20200117, Some 4)]"
    by code_simp
  obtain d where "daT example_vertex example_vertices example_da = Inr d"
    and "ta_x d = filter (\<lambda>x. 739000 \<le> x \<and> x \<le> 752000) (ta_x example_da)"
    and "ta_y d = filter (\<lambda>y. 4315000 \<le> y \<and> y \<le> 4331000) (ta_y example_da)"
    using bounding_box_extraction [OF h1 h2 h3 h4 h5] by blast
  then have "\<exists>d. daT example_vertex example_vertices example_da = Inr d \<and>
      ta_x d = [740000, 750000] \<and> ta_y d = [4330000, 4320000]"
    using fx fy by auto
  then show ?thesis
    using h1 h2 h3 h4 h5 m by blast
qed

text \<open>
  Where a timestamp has no data in the box the series has no scalar for it: the example
  has three timestamps and its series has two scalars, none for the acquisition of March.
\<close>

theorem mean_trend_drops_counterexample:
  "ta_time example_da = [20200105, 20200117, 20200310] \<and>
   region_mean_trend example_vertex example_vertices example_da =
     Inr [(20200105, Some 3), (20200117, Some 4)] \<and>
   map_sum id length (region_mean_trend example_vertex example_vertices example_da) = Inr 2 \<and>
   length (ta_time example_da) = 3"
  by code_simp

end
